theory Spec2Isabelle
  imports Complex_Main
begin

section \<open>Characters and regular expressions\<close>

text \<open>
  A JavaScript string is a sequence of UTF-16 code units. The model uses \<^typ>\<open>string\<close>:
  a \<^typ>\<open>char\<close> stands for a code unit in the range 0..255 (Latin-1). The character
  classes of the source's regular expressions are predicates on \<^typ>\<open>char\<close>:
  \<^verbatim>\<open>\s\<close> (white space and line terminators: TAB, LF, VT, FF, CR, SPACE, NBSP in this
  range), \<^verbatim>\<open>\d\<close> (ASCII digits only), and \<^verbatim>\<open>.\<close> (anything but a line
  terminator, LF and CR in this range).
\<close>

abbreviation backslash :: char where
  "backslash \<equiv> CHR 0x5C"

abbreviation dquote :: char where
  "dquote \<equiv> CHR 0x22"

definition is_space :: "char \<Rightarrow> bool" where
  "is_space c \<longleftrightarrow>
     c \<in> set [CHR 0x09, CHR 0x0A, CHR 0x0B, CHR 0x0C, CHR 0x0D, CHR 0x20, CHR 0xA0]"

definition is_digit :: "char \<Rightarrow> bool" where
  "is_digit c \<longleftrightarrow> c \<in> set ''0123456789''"

definition is_line_terminator :: "char \<Rightarrow> bool" where
  "is_line_terminator c \<longleftrightarrow> c \<in> set [CHR 0x0A, CHR 0x0D]"

definition is_id_start :: "char \<Rightarrow> bool" where
  "is_id_start c \<longleftrightarrow>
     c \<in> set ''abcdefghijklmnopqrstuvwxyzABCDEFGHIJKLMNOPQRSTUVWXYZ_''"

definition is_id_char :: "char \<Rightarrow> bool" where
  "is_id_char c \<longleftrightarrow> is_id_start c \<or> is_digit c"

text \<open>
  The regular expressions of the source use character classes, concatenation, ordered
  alternation and the greedy quantifiers \<^verbatim>\<open>*\<close>, \<^verbatim>\<open>+\<close>, \<^verbatim>\<open>?\<close> and
  \<^verbatim>\<open>{n}\<close>. \<open>rmatch r s\<close> lists the suffixes of \<open>s\<close> that remain after each way
  \<open>r\<close> can match at the start of \<open>s\<close>, in the order a backtracking matcher tries them:
  the left alternative first, one more iteration before stopping. The head of the list is
  the match JavaScript reports. An iteration of \<^verbatim>\<open>*\<close> that consumes nothing is rejected,
  as in ECMAScript.
\<close>

datatype regex =
  Eps
  | Class "char \<Rightarrow> bool"
  | Cat regex regex
  | Alt regex regex
  | Kleene regex

fun rmatch :: "regex \<Rightarrow> string \<Rightarrow> string list" where
  "rmatch Eps s = [s]"
| "rmatch (Class P) s = (case s of [] \<Rightarrow> [] | c # cs \<Rightarrow> if P c then [cs] else [])"
| "rmatch (Cat a b) s = concat (map (rmatch b) (rmatch a s))"
| "rmatch (Alt a b) s = rmatch a s @ rmatch b s"
| "rmatch (Kleene a) s =
     concat (map (\<lambda>s'. if length s' < length s then rmatch (Kleene a) s' else [])
               (rmatch a s)) @ [s]"

definition Lit :: "char \<Rightarrow> regex" where
  "Lit c = Class (\<lambda>x. x = c)"

definition Opt :: "regex \<Rightarrow> regex" where
  "Opt r = Alt r Eps"

definition Rep1 :: "regex \<Rightarrow> regex" where
  "Rep1 r = Cat r (Kleene r)"

fun Cats :: "regex list \<Rightarrow> regex" where
  "Cats [] = Eps"
| "Cats (r # rs) = Cat r (Cats rs)"

definition Str :: "string \<Rightarrow> regex" where
  "Str s = Cats (map Lit s)"

definition Repeat :: "nat \<Rightarrow> regex \<Rightarrow> regex" where
  "Repeat n r = Cats (replicate n r)"

text \<open>The text a pattern matches at the start of \<open>s\<close>, if it matches there.\<close>

definition match :: "regex \<Rightarrow> string \<Rightarrow> string option" where
  "match r s =
     (case rmatch r s of [] \<Rightarrow> None | rest # _ \<Rightarrow> Some (take (length s - length rest) s))"

section \<open>Tokenizer\<close>

text \<open>
  The filter types of the output (\<^verbatim>\<open>enum FilterType\<close>) and the token types
  (\<^verbatim>\<open>createToken\<close>) share the names \<open>Term\<close>, \<open>GT\<close>, \<open>GTE\<close>, \<open>LT\<close>
  and \<open>LTE\<close>. The filter types are written qualified, \<open>FilterType.GT\<close>, as in the
  source; an unqualified name is a token type. The token \<^verbatim>\<open>Not\<close> is \<open>Not'\<close>,
  and the text of a token, its \<^verbatim>\<open>image\<close>, is the field \<open>image'\<close>.
\<close>

datatype FilterType = Term | Field | GT | GTE | LT | LTE | Range

datatype TokenType =
  SP | Term | Not' | Minus | ID | EQ | GT | GTE | LT | LTE
  | DateLiteral | NumberLiteral | DoubleDot | Star | QuotedTerm

text \<open>The \<^verbatim>\<open>pattern\<close> of each token, as the source writes it.\<close>

fun pattern :: "TokenType \<Rightarrow> regex" where
  "pattern SP = Rep1 (Class is_space)"
| "pattern Term =
     Rep1 (Alt (Class (\<lambda>c. \<not> (c = backslash \<or> is_space c \<or> c = CHR '':'' \<or> c = CHR ''.'')))
               (Cat (Lit backslash) (Class (\<lambda>c. is_space c \<or> c = CHR '':'' \<or> c = CHR ''.''))))"
| "pattern Not' = Str ''NOT''"
| "pattern Minus = Lit CHR ''-''"
| "pattern ID = Cat (Rep1 (Class is_id_start)) (Kleene (Class is_id_char))"
| "pattern EQ = Lit CHR '':''"
| "pattern GT = Str '':>''"
| "pattern GTE = Str '':>=''"
| "pattern LT = Str '':<''"
| "pattern LTE = Str '':<=''"
| "pattern DateLiteral =
     Cats [Repeat 4 (Class is_digit), Lit CHR ''-'', Repeat 2 (Class is_digit), Lit CHR ''-'',
          Repeat 2 (Class is_digit),
          Opt (Cats [Lit CHR ''T'', Repeat 2 (Class is_digit), Lit CHR '':'',
                    Repeat 2 (Class is_digit), Lit CHR '':'', Repeat 2 (Class is_digit),
                    Alt (Lit CHR ''Z'')
                        (Cats [Lit CHR ''+'', Repeat 2 (Class is_digit), Lit CHR '':'',
                              Repeat 2 (Class is_digit)])])]"
| "pattern NumberLiteral =
     Cat (Rep1 (Class is_digit)) (Opt (Cat (Lit CHR ''.'') (Rep1 (Class is_digit))))"
| "pattern DoubleDot = Str ''..''"
| "pattern Star = Lit CHR ''*''"
| "pattern QuotedTerm =
     Cats [Lit dquote,
          Kleene (Alt (Class (\<lambda>c. \<not> (c = dquote \<or> c = backslash)))
                      (Cat (Lit backslash) (Lit dquote))),
          Lit dquote]"

fun longer_alt :: "TokenType \<Rightarrow> TokenType option" where
  "longer_alt Not' = Some Term"
| "longer_alt ID = Some Term"
| "longer_alt DateLiteral = Some Term"
| "longer_alt NumberLiteral = Some Term"
| "longer_alt _ = None"

text \<open>\<^verbatim>\<open>group: Lexer.SKIPPED\<close>: the token is matched and not emitted.\<close>

fun skipped :: "TokenType \<Rightarrow> bool" where
  "skipped SP = True"
| "skipped _ = False"

definition tokens :: "TokenType list" where
  "tokens = [SP, Not', Minus, ID, GTE, GT, LTE, LT, EQ, DoubleDot, Star,
             DateLiteral, NumberLiteral, QuotedTerm, Term]"

record token =
  tokenType :: TokenType
  image' :: string

text \<open>
  One step of the lexer of the grammar library (chevrotain's \<^verbatim>\<open>Lexer\<close>) at the
  current offset: the token types are tried in the order of \<open>tokens\<close> and the first
  whose pattern matches wins; when it has a \<^verbatim>\<open>longer_alt\<close> whose pattern matches a
  strictly longer text, the alternative is taken instead.
\<close>

fun first_match :: "TokenType list \<Rightarrow> string \<Rightarrow> (TokenType \<times> string) option" where
  "first_match [] s = None"
| "first_match (t # ts) s =
     (case match (pattern t) s of
        None \<Rightarrow> first_match ts s
      | Some img \<Rightarrow>
          (case longer_alt t of
             None \<Rightarrow> Some (t, img)
           | Some a \<Rightarrow>
               (case match (pattern a) s of
                  None \<Rightarrow> Some (t, img)
                | Some img' \<Rightarrow>
                    if length img' > length img then Some (a, img') else Some (t, img))))"

text \<open>
  Every pattern consumes at least one character, so the lexer's offset advances at
  every token.
\<close>

fun consuming :: "regex \<Rightarrow> bool" where
  "consuming Eps = False"
| "consuming (Class P) = True"
| "consuming (Cat a b) = (consuming a \<or> consuming b)"
| "consuming (Alt a b) = (consuming a \<and> consuming b)"
| "consuming (Kleene a) = False"

declare rmatch.simps(5) [simp del]

text \<open>The equation of \<open>Kleene\<close> unfolds itself: it is applied by hand.\<close>

lemma set_rmatch_Kleene:
  "set (rmatch (Kleene a) s) =
     insert s (\<Union>m \<in> {m \<in> set (rmatch a s). length m < length s}. set (rmatch (Kleene a) m))"
  by (subst rmatch.simps(5)) (auto split: if_splits)

lemma rmatch_length_le: "s' \<in> set (rmatch r s) \<Longrightarrow> length s' \<le> length s"
proof (induction r s arbitrary: s' rule: rmatch.induct)
  case (1 s)
  then show ?case by simp
next
  case (2 P s)
  then show ?case by (cases s) (simp_all split: if_splits)
next
  case (3 a b s)
  from 3(3) obtain m where m: "m \<in> set (rmatch a s)" "s' \<in> set (rmatch b m)"
    by auto
  have "length s' \<le> length m" using 3(2) [OF m] .
  moreover have "length m \<le> length s" using 3(1) [OF m(1)] .
  ultimately show ?case by simp
next
  case (4 a b s)
  from 4(3) have "s' \<in> set (rmatch a s) \<or> s' \<in> set (rmatch b s)" by simp
  then show ?case using 4(1,2) by blast
next
  case (5 a s)
  show ?case
  proof (cases "s' = s")
    case False
    with 5(3) obtain m where m: "m \<in> set (rmatch a s)" "length m < length s" "s' \<in> set (rmatch (Kleene a) m)"
      by (subst (asm) set_rmatch_Kleene) auto
    have "length s' \<le> length m" using 5(2) [OF m] .
    then show ?thesis using m(2) by simp
  qed simp
qed

lemma rmatch_length_less:
  "consuming r \<Longrightarrow> s' \<in> set (rmatch r s) \<Longrightarrow> length s' < length s"
proof (induction r arbitrary: s s')
  case Eps
  then show ?case by simp
next
  case (Class P)
  then show ?case by (cases s) (simp_all split: if_splits)
next
  case (Cat a b)
  from Cat.prems(2) obtain m where m: "m \<in> set (rmatch a s)" "s' \<in> set (rmatch b m)"
    by auto
  note le1 = rmatch_length_le [OF m(1)] and le2 = rmatch_length_le [OF m(2)]
  from Cat.prems(1) consider "consuming a" | "consuming b"
    by auto
  then show ?case
  proof cases
    case 1
    from Cat.IH(1) [OF 1 m(1)] le2 show ?thesis by simp
  next
    case 2
    from Cat.IH(2) [OF 2 m(2)] le1 show ?thesis by simp
  qed
next
  case (Alt a b)
  from Alt.prems(2) have "s' \<in> set (rmatch a s) \<or> s' \<in> set (rmatch b s)" by simp
  then show ?case using Alt.IH Alt.prems(1) by auto
next
  case (Kleene a)
  then show ?case by simp
qed

lemma consuming_pattern: "consuming (pattern t)"
  by (cases t) (simp_all add: Rep1_def Str_def Lit_def Opt_def Repeat_def eval_nat_numeral)

lemma match_nonempty:
  assumes "consuming r" "match r s = Some img"
  shows "img \<noteq> [] \<and> s \<noteq> []"
proof -
  from assms(2) obtain rest xs where r: "rmatch r s = rest # xs" "img = take (length s - length rest) s"
    by (auto simp: match_def split: list.splits)
  then have "length rest < length s"
    using rmatch_length_less [OF assms(1), of rest s] by simp
  with r(2) show ?thesis by auto
qed

lemma first_match_nonempty: "first_match ts s = Some (t, img) \<Longrightarrow> img \<noteq> [] \<and> s \<noteq> []"
proof (induction ts)
  case Nil
  then show ?case by simp
next
  case (Cons a ts)
  show ?case
  proof (cases "match (pattern a) s")
    case None
    with Cons show ?thesis by simp
  next
    case (Some i)
    note ne = match_nonempty [OF consuming_pattern]
    from Cons.prems Some ne [of a s i] ne [of _ s img] show ?thesis
      by (auto split: option.splits if_splits)
  qed
qed

text \<open>
  The lexer's loop (\<^verbatim>\<open>lexer.tokenize\<close>): at each offset the first matching token is
  emitted, unless it is skipped, and the offset moves past its image. Where no pattern
  matches, the lexer records an error and drops one character; \<^verbatim>\<open>parse\<close> reads only
  \<^verbatim>\<open>tokens\<close> from the result, so the error is not seen again.
\<close>

function tokenize :: "string \<Rightarrow> token list" where
  "tokenize text =
     (if text = [] then []
      else case first_match tokens text of
             None \<Rightarrow> tokenize (tl text)
           | Some (t, img) \<Rightarrow>
               (if skipped t then [] else [\<lparr>tokenType = t, image' = img\<rparr>])
               @ tokenize (drop (length img) text))"
  by pat_completeness auto
termination
proof (relation "measure length")
  fix s :: string and x2 t img
  assume "s \<noteq> []" "first_match tokens s = Some x2" "(t, img) = x2"
  then have "img \<noteq> []"
    using first_match_nonempty [of tokens s t img] by simp
  with \<open>s \<noteq> []\<close> show "(drop (length img) s, s) \<in> measure length"
    by (cases s; cases img) auto
qed auto

declare tokenize.simps [simp del]

section \<open>Grammar engine\<close>

text \<open>
  The concrete syntax tree. Each grammar rule has a node type that holds the children
  the visitor method of the rule declares in its \<^verbatim>\<open>ctx\<close> parameter, in the order of
  the declaration; an optional child (\<^verbatim>\<open>name?:\<close>) is an \<^typ>\<open>'a option\<close>.
\<close>

datatype identifier_ctx =
  identifier_ctx token \<comment> \<open>\<^verbatim>\<open>ID\<close>\<close>

datatype comparable_ctx =
  comparable_ctx "token option" "token option" \<comment> \<open>\<^verbatim>\<open>NumberLiteral?\<close>, \<^verbatim>\<open>DateLiteral?\<close>\<close>

datatype term_ctx =
  term_ctx "identifier_ctx option" "token option" "token option" "token option" "token option"
  \<comment> \<open>\<^verbatim>\<open>identifier?\<close>, \<^verbatim>\<open>NumberLiteral?\<close>, \<^verbatim>\<open>DateLiteral?\<close>, \<^verbatim>\<open>Term?\<close>, \<^verbatim>\<open>QuotedTerm?\<close>\<close>

datatype rangeLeft_ctx =
  rangeLeft_ctx "comparable_ctx list" \<comment> \<open>\<^verbatim>\<open>comparable\<close>, one or two nodes\<close>

datatype rangeRight_ctx =
  rangeRight_ctx comparable_ctx \<comment> \<open>\<^verbatim>\<open>comparable\<close>\<close>

datatype range_ctx =
  range_ctx "rangeLeft_ctx option" "rangeRight_ctx option" \<comment> \<open>\<^verbatim>\<open>rangeLeft?\<close>, \<^verbatim>\<open>rangeRight?\<close>\<close>

datatype fieldStatement_ctx =
  fieldStatement_ctx identifier_ctx "range_ctx option" "term_ctx option"
  \<comment> \<open>\<^verbatim>\<open>identifier\<close>, \<^verbatim>\<open>range?\<close>, \<^verbatim>\<open>term?\<close>\<close>

datatype compareStatement_ctx =
  compareStatement_ctx identifier_ctx "token option" "token option" "token option" "token option"
    comparable_ctx
  \<comment> \<open>\<^verbatim>\<open>identifier\<close>, \<^verbatim>\<open>GT?\<close>, \<^verbatim>\<open>GTE?\<close>, \<^verbatim>\<open>LT?\<close>, \<^verbatim>\<open>LTE?\<close>, \<^verbatim>\<open>comparable\<close>\<close>

datatype statement_ctx =
  statement_ctx "negativeStatement_ctx option" "fieldStatement_ctx option"
    "compareStatement_ctx option" "term_ctx option"
  \<comment> \<open>\<^verbatim>\<open>negativeStatement?\<close>, \<^verbatim>\<open>fieldStatement?\<close>, \<^verbatim>\<open>compareStatement?\<close>, \<^verbatim>\<open>term?\<close>\<close>
and negativeStatement_ctx =
  negativeStatement_ctx statement_ctx \<comment> \<open>\<^verbatim>\<open>statement\<close>\<close>

datatype statements_ctx =
  statements_ctx "statement_ctx list option" \<comment> \<open>\<^verbatim>\<open>statement?\<close>\<close>

text \<open>
  What a call can raise. \<open>TypeError\<close> and \<open>SyntaxError\<close> are the JavaScript errors of
  the visitor. \<open>RecognitionException\<close> is raised by the grammar engine where the tokens
  do not fit the grammar; the parser is built with \<^verbatim>\<open>recoveryEnabled: true\<close>, so the
  engine then re-synchronises and builds a partial tree. That recovery is library code
  and is not modelled: \<open>Inl RecognitionException\<close> stands for every run that enters it,
  and says nothing about its result. \<open>OutsideModel\<close> marks the JSON texts the model of
  \<^verbatim>\<open>JSON.parse\<close> does not cover.
\<close>

datatype error = RecognitionException | TypeError | SyntaxError | OutsideModel

text \<open>\<^verbatim>\<open>LA(k)\<close>: the type of the \<open>k\<close>-th token ahead; \<open>None\<close> at the end of input.\<close>

definition LA :: "nat \<Rightarrow> token list \<Rightarrow> TokenType option" where
  "LA k ts = (case drop (k - 1) ts of [] \<Rightarrow> None | t # _ \<Rightarrow> Some (tokenType t))"

definition CONSUME :: "TokenType \<Rightarrow> token list \<Rightarrow> error + token \<times> token list" where
  "CONSUME ty ts =
     (case ts of
        [] \<Rightarrow> Inl RecognitionException
      | t # r \<Rightarrow> if tokenType t = ty then Inr (t, r) else Inl RecognitionException)"

text \<open>
  The rules of \<^verbatim>\<open>class Parser\<close>. An \<^verbatim>\<open>OR\<close> takes the first alternative, in the
  order written, that the tokens ahead can start; the engine looks ahead as far as it
  takes to tell the alternatives apart. In \<^verbatim>\<open>statement\<close> the three alternatives that
  begin with \<^verbatim>\<open>ID\<close> differ in the second token, and \<^verbatim>\<open>term\<close>, whose path ends
  after \<^verbatim>\<open>ID\<close>, is the last; in \<^verbatim>\<open>fieldStatement\<close> a number or date starts a
  \<^verbatim>\<open>range\<close> when \<^verbatim>\<open>DoubleDot\<close> follows it.
\<close>

definition Parser_identifier :: "token list \<Rightarrow> error + identifier_ctx \<times> token list" where
  "Parser_identifier ts =
     (case CONSUME ID ts of Inl e \<Rightarrow> Inl e | Inr (t, r) \<Rightarrow> Inr (identifier_ctx t, r))"

definition Parser_comparable :: "token list \<Rightarrow> error + comparable_ctx \<times> token list" where
  "Parser_comparable ts =
     (if LA 1 ts = Some NumberLiteral then
        (case CONSUME NumberLiteral ts of
           Inl e \<Rightarrow> Inl e | Inr (t, r) \<Rightarrow> Inr (comparable_ctx (Some t) None, r))
      else if LA 1 ts = Some DateLiteral then
        (case CONSUME DateLiteral ts of
           Inl e \<Rightarrow> Inl e | Inr (t, r) \<Rightarrow> Inr (comparable_ctx None (Some t), r))
      else Inl RecognitionException)"

definition Parser_term :: "token list \<Rightarrow> error + term_ctx \<times> token list" where
  "Parser_term ts =
     (if LA 1 ts = Some ID then
        (case Parser_identifier ts of
           Inl e \<Rightarrow> Inl e | Inr (i, r) \<Rightarrow> Inr (term_ctx (Some i) None None None None, r))
      else if LA 1 ts = Some DateLiteral then
        (case CONSUME DateLiteral ts of
           Inl e \<Rightarrow> Inl e | Inr (t, r) \<Rightarrow> Inr (term_ctx None None (Some t) None None, r))
      else if LA 1 ts = Some NumberLiteral then
        (case CONSUME NumberLiteral ts of
           Inl e \<Rightarrow> Inl e | Inr (t, r) \<Rightarrow> Inr (term_ctx None (Some t) None None None, r))
      else if LA 1 ts = Some Term then
        (case CONSUME Term ts of
           Inl e \<Rightarrow> Inl e | Inr (t, r) \<Rightarrow> Inr (term_ctx None None None (Some t) None, r))
      else if LA 1 ts = Some QuotedTerm then
        (case CONSUME QuotedTerm ts of
           Inl e \<Rightarrow> Inl e | Inr (t, r) \<Rightarrow> Inr (term_ctx None None None None (Some t), r))
      else Inl RecognitionException)"

definition Parser_rangeLeft :: "token list \<Rightarrow> error + rangeLeft_ctx \<times> token list" where
  "Parser_rangeLeft ts =
     (case Parser_comparable ts of
        Inl e \<Rightarrow> Inl e
      | Inr (c1, r1) \<Rightarrow>
          (case CONSUME DoubleDot r1 of
             Inl e \<Rightarrow> Inl e
           | Inr (_, r2) \<Rightarrow>
               if LA 1 r2 = Some Star then
                 (case CONSUME Star r2 of
                    Inl e \<Rightarrow> Inl e | Inr (_, r3) \<Rightarrow> Inr (rangeLeft_ctx [c1], r3))
               else if LA 1 r2 = Some NumberLiteral \<or> LA 1 r2 = Some DateLiteral then
                 (case Parser_comparable r2 of
                    Inl e \<Rightarrow> Inl e | Inr (c2, r3) \<Rightarrow> Inr (rangeLeft_ctx [c1, c2], r3))
               else Inl RecognitionException))"

definition Parser_rangeRight :: "token list \<Rightarrow> error + rangeRight_ctx \<times> token list" where
  "Parser_rangeRight ts =
     (case CONSUME Star ts of
        Inl e \<Rightarrow> Inl e
      | Inr (_, r1) \<Rightarrow>
          (case CONSUME DoubleDot r1 of
             Inl e \<Rightarrow> Inl e
           | Inr (_, r2) \<Rightarrow>
               (case Parser_comparable r2 of
                  Inl e \<Rightarrow> Inl e | Inr (c, r3) \<Rightarrow> Inr (rangeRight_ctx c, r3))))"

definition Parser_range :: "token list \<Rightarrow> error + range_ctx \<times> token list" where
  "Parser_range ts =
     (if LA 1 ts = Some NumberLiteral \<or> LA 1 ts = Some DateLiteral then
        (case Parser_rangeLeft ts of
           Inl e \<Rightarrow> Inl e | Inr (l, r) \<Rightarrow> Inr (range_ctx (Some l) None, r))
      else if LA 1 ts = Some Star then
        (case Parser_rangeRight ts of
           Inl e \<Rightarrow> Inl e | Inr (x, r) \<Rightarrow> Inr (range_ctx None (Some x), r))
      else Inl RecognitionException)"

definition Parser_fieldStatement :: "token list \<Rightarrow> error + fieldStatement_ctx \<times> token list" where
  "Parser_fieldStatement ts =
     (case Parser_identifier ts of
        Inl e \<Rightarrow> Inl e
      | Inr (i, r1) \<Rightarrow>
          (case CONSUME EQ r1 of
             Inl e \<Rightarrow> Inl e
           | Inr (_, r2) \<Rightarrow>
               if (LA 1 r2 = Some NumberLiteral \<or> LA 1 r2 = Some DateLiteral)
                    \<and> LA 2 r2 = Some DoubleDot
                  \<or> LA 1 r2 = Some Star then
                 (case Parser_range r2 of
                    Inl e \<Rightarrow> Inl e
                  | Inr (g, r3) \<Rightarrow> Inr (fieldStatement_ctx i (Some g) None, r3))
               else if LA 1 r2 \<in> Some ` {ID, DateLiteral, NumberLiteral, Term, QuotedTerm} then
                 (case Parser_term r2 of
                    Inl e \<Rightarrow> Inl e
                  | Inr (t, r3) \<Rightarrow> Inr (fieldStatement_ctx i None (Some t), r3))
               else Inl RecognitionException))"

definition Parser_compareStatement ::
  "token list \<Rightarrow> error + compareStatement_ctx \<times> token list" where
  "Parser_compareStatement ts =
     (case Parser_identifier ts of
        Inl e \<Rightarrow> Inl e
      | Inr (i, r1) \<Rightarrow>
          (case
             (if LA 1 r1 = Some GT then
                (case CONSUME GT r1 of
                   Inl e \<Rightarrow> Inl e | Inr (t, r) \<Rightarrow> Inr ((Some t, None, None, None), r))
              else if LA 1 r1 = Some GTE then
                (case CONSUME GTE r1 of
                   Inl e \<Rightarrow> Inl e | Inr (t, r) \<Rightarrow> Inr ((None, Some t, None, None), r))
              else if LA 1 r1 = Some LT then
                (case CONSUME LT r1 of
                   Inl e \<Rightarrow> Inl e | Inr (t, r) \<Rightarrow> Inr ((None, None, Some t, None), r))
              else if LA 1 r1 = Some LTE then
                (case CONSUME LTE r1 of
                   Inl e \<Rightarrow> Inl e | Inr (t, r) \<Rightarrow> Inr ((None, None, None, Some t), r))
              else Inl RecognitionException)
           of
             Inl e \<Rightarrow> Inl e
           | Inr ((gt, gte, lt, lte), r2) \<Rightarrow>
               (case Parser_comparable r2 of
                  Inl e \<Rightarrow> Inl e
                | Inr (c, r3) \<Rightarrow> Inr (compareStatement_ctx i gt gte lt lte c, r3))))"

text \<open>
  \<^verbatim>\<open>statement\<close> and \<^verbatim>\<open>negativeStatement\<close> call each other; the second consumes a
  token before it calls the first.
\<close>

function Parser_statement :: "token list \<Rightarrow> error + statement_ctx \<times> token list"
  and Parser_negativeStatement :: "token list \<Rightarrow> error + negativeStatement_ctx \<times> token list"
where
  "Parser_statement ts =
     (if LA 1 ts = Some Not' \<or> LA 1 ts = Some Minus then
        (case Parser_negativeStatement ts of
           Inl e \<Rightarrow> Inl e | Inr (n, r) \<Rightarrow> Inr (statement_ctx (Some n) None None None, r))
      else if LA 1 ts = Some ID \<and> LA 2 ts = Some EQ then
        (case Parser_fieldStatement ts of
           Inl e \<Rightarrow> Inl e | Inr (f, r) \<Rightarrow> Inr (statement_ctx None (Some f) None None, r))
      else if LA 1 ts = Some ID \<and> LA 2 ts \<in> Some ` {GT, GTE, LT, LTE} then
        (case Parser_compareStatement ts of
           Inl e \<Rightarrow> Inl e | Inr (c, r) \<Rightarrow> Inr (statement_ctx None None (Some c) None, r))
      else if LA 1 ts \<in> Some ` {ID, DateLiteral, NumberLiteral, Term, QuotedTerm} then
        (case Parser_term ts of
           Inl e \<Rightarrow> Inl e | Inr (t, r) \<Rightarrow> Inr (statement_ctx None None None (Some t), r))
      else Inl RecognitionException)"
| "Parser_negativeStatement ts =
     (case
        (if LA 1 ts = Some Not' then CONSUME Not' ts
         else if LA 1 ts = Some Minus then CONSUME Minus ts
         else Inl RecognitionException)
      of
        Inl e \<Rightarrow> Inl e
      | Inr (_, r1) \<Rightarrow>
          (case Parser_statement r1 of
             Inl e \<Rightarrow> Inl e | Inr (s, r2) \<Rightarrow> Inr (negativeStatement_ctx s, r2)))"
  by pat_completeness auto
termination
proof (relation "measure (\<lambda>x. case x of Inl ts \<Rightarrow> 2 * length ts + 1 | Inr ts \<Rightarrow> 2 * length ts)")
  fix ts :: "token list" and x2 x y
  assume "(if LA 1 ts = Some Not' then CONSUME Not' ts
           else if LA 1 ts = Some Minus then CONSUME Minus ts
           else Inl RecognitionException) = Inr x2"
    and "(x, y) = x2"
  then have "length y < length ts"
    by (auto simp: CONSUME_def split: if_splits list.splits)
  then show "(Inl y, Inr ts) \<in>
      measure (\<lambda>x. case x of Inl ts \<Rightarrow> 2 * length ts + 1 | Inr ts \<Rightarrow> 2 * length ts)"
    by simp
qed auto

declare Parser_statement.simps [simp del] Parser_negativeStatement.simps [simp del]

text \<open>
  \<^verbatim>\<open>statements\<close>: the \<^verbatim>\<open>MANY\<close> loop runs while the next token can start a
  \<^verbatim>\<open>statement\<close> and the last iteration consumed a token. When the loop stops before
  the end of the input, the engine enters its recovery.
\<close>

function MANY_statement :: "token list \<Rightarrow> error + statement_ctx list" where
  "MANY_statement ts =
     (if LA 1 ts \<in> Some ` {Not', Minus, ID, DateLiteral, NumberLiteral, Term, QuotedTerm} then
        (case Parser_statement ts of
           Inl e \<Rightarrow> Inl e
         | Inr (s, r) \<Rightarrow>
             if length r < length ts then
               (case MANY_statement r of Inl e \<Rightarrow> Inl e | Inr ss \<Rightarrow> Inr (s # ss))
             else Inr [s])
      else if ts = [] then Inr []
      else Inl RecognitionException)"
  by pat_completeness auto
termination
  by (relation "measure length") auto

declare MANY_statement.simps [simp del]

definition Parser_statements :: "token list \<Rightarrow> error + statements_ctx" where
  "Parser_statements ts =
     (case MANY_statement ts of
        Inl e \<Rightarrow> Inl e
      | Inr ss \<Rightarrow> Inr (statements_ctx (if ss = [] then None else Some ss)))"

section \<open>Semantic resolver\<close>

text \<open>
  The JavaScript values the visitor handles besides the filter objects. A number is the
  rational its decimal literal denotes; the rounding of \<^verbatim>\<open>Number\<close> to a binary64 is not
  represented, except where it decides a branch: a literal at or below half the least
  positive binary64, \<open>2\<^sup>-\<^sup>1\<^sup>0\<^sup>7\<^sup>5\<close>, rounds to zero, and zero is falsy. A \<^verbatim>\<open>Date\<close>
  object is kept as the text it was constructed from; every object is truthy.
\<close>

datatype jsvalue = Undefined | JString string | JNumber rat | JDate string

fun truthy :: "jsvalue \<Rightarrow> bool" where
  "truthy Undefined = False"
| "truthy (JString s) = (s \<noteq> [])"
| "truthy (JNumber n) = (n \<noteq> 0)"
| "truthy (JDate d) = True"

definition digits_value :: "string \<Rightarrow> nat" where
  "digits_value ds = foldl (\<lambda>n c. 10 * n + (of_char c - 48)) 0 ds"

text \<open>
  \<^verbatim>\<open>Number(image)\<close> for the images of \<^verbatim>\<open>NumberLiteral\<close>: digits, optionally followed
  by a dot and digits.
\<close>

definition underflow :: "rat \<Rightarrow> rat" where
  "underflow v = (if v \<le> 1 / 2 ^ 1075 then 0 else v)"

definition Number :: "string \<Rightarrow> jsvalue" where
  "Number img =
     (let ip = takeWhile is_digit img;
          fp = drop (Suc (length ip)) img
      in JNumber (underflow
           (of_nat (digits_value ip) + of_nat (digits_value fp) / 10 ^ length fp)))"

definition new_Date :: "string \<Rightarrow> jsvalue" where
  "new_Date img = JDate img"

text \<open>
  \<^verbatim>\<open>escapeTerm\<close>: \<^verbatim>\<open>text.replace(/\\(.)/g, '$1')\<close>. Scanning from the left, a
  backslash followed by a character that \<^verbatim>\<open>.\<close> matches is replaced by that character
  and the scan resumes after the pair; any other character is copied.
\<close>

fun escapeTerm :: "string \<Rightarrow> string" where
  "escapeTerm (c # d # cs) =
     (if c = backslash \<and> \<not> is_line_terminator d then d # escapeTerm cs
      else c # escapeTerm (d # cs))"
| "escapeTerm cs = cs"

text \<open>
  \<^verbatim>\<open>JSON.parse\<close> on a text that begins with a double quote, as every image of
  \<^verbatim>\<open>QuotedTerm\<close> does: the text must be one JSON string literal, followed by JSON
  white space only. A control character (below U+0020) inside the literal is a
  \<^verbatim>\<open>SyntaxError\<close>, as is a backslash that starts no escape. The \<^verbatim>\<open>\u\<close> escape and
  the texts that do not begin with a double quote are outside the model.
\<close>

fun JSON_escape :: "char \<Rightarrow> char option" where
  "JSON_escape c =
     (if c = dquote then Some dquote
      else if c = backslash then Some backslash
      else if c = CHR ''/'' then Some CHR ''/''
      else if c = CHR ''b'' then Some (CHR 0x08)
      else if c = CHR ''f'' then Some (CHR 0x0C)
      else if c = CHR ''n'' then Some (CHR 0x0A)
      else if c = CHR ''r'' then Some (CHR 0x0D)
      else if c = CHR ''t'' then Some (CHR 0x09)
      else None)"

fun JSON_string :: "string \<Rightarrow> error + string" where
  "JSON_string [] = Inl SyntaxError"
| "JSON_string (c # cs) =
     (if c = dquote then
        (if list_all (\<lambda>w. w \<in> set [CHR 0x20, CHR 0x09, CHR 0x0A, CHR 0x0D]) cs then Inr []
         else Inl SyntaxError)
      else if c = backslash then
        (case cs of
           [] \<Rightarrow> Inl SyntaxError
         | e # cs' \<Rightarrow>
             if e = CHR ''u'' then Inl OutsideModel
             else (case JSON_escape e of
                     None \<Rightarrow> Inl SyntaxError
                   | Some d \<Rightarrow>
                       (case JSON_string cs' of Inl x \<Rightarrow> Inl x | Inr r \<Rightarrow> Inr (d # r))))
      else if (of_char c :: nat) < 0x20 then Inl SyntaxError
      else (case JSON_string cs of Inl x \<Rightarrow> Inl x | Inr r \<Rightarrow> Inr (c # r)))"

definition JSON_parse :: "string \<Rightarrow> error + jsvalue" where
  "JSON_parse s =
     (case s of
        [] \<Rightarrow> Inl SyntaxError
      | c # cs \<Rightarrow>
          if c = dquote then
            (case JSON_string cs of Inl x \<Rightarrow> Inl x | Inr r \<Rightarrow> Inr (JString r))
          else Inl OutsideModel)"

text \<open>
  A filter object. \<^verbatim>\<open>type\<close> and \<^verbatim>\<open>kind\<close> are set by every object literal of the
  visitor; of the other keys an object has those its literal names, and \<open>None\<close> says
  that the object has no such key. The keys \<^verbatim>\<open>value\<close> and \<^verbatim>\<open>from\<close> are the fields
  \<open>value'\<close> and \<open>from'\<close>.
\<close>

record Filter =
  type :: FilterType
  kind :: string
  field :: "jsvalue option"
  value' :: "jsvalue option"
  from' :: "jsvalue option"
  to :: "jsvalue option"
  exclude :: "bool option"

text \<open>
  The methods of \<^verbatim>\<open>class Visitor\<close>. \<^verbatim>\<open>this.visit(x)\<close> calls the method of the node's
  rule, and returns \<^verbatim>\<open>undefined\<close> when \<open>x\<close> is \<^verbatim>\<open>undefined\<close>.
\<close>

fun Visitor_identifier :: "identifier_ctx \<Rightarrow> jsvalue" where
  "Visitor_identifier (identifier_ctx tok) = JString (image' tok)"

fun Visitor_comparable :: "comparable_ctx \<Rightarrow> jsvalue" where
  "Visitor_comparable (comparable_ctx num dat) =
     (case num of
        Some t \<Rightarrow> Number (image' t)
      | None \<Rightarrow> (case dat of Some t \<Rightarrow> new_Date (image' t) | None \<Rightarrow> Undefined))"

fun Visitor_term :: "term_ctx \<Rightarrow> error + jsvalue" where
  "Visitor_term (term_ctx idn num dat trm qtd) =
     (case idn of
        Some i \<Rightarrow> Inr (Visitor_identifier i)
      | None \<Rightarrow>
     (case num of
        Some t \<Rightarrow> Inr (JString (image' t))
      | None \<Rightarrow>
     (case dat of
        Some t \<Rightarrow> Inr (JString (image' t))
      | None \<Rightarrow>
     (case trm of
        Some t \<Rightarrow> Inr (JString (escapeTerm (image' t)))
      | None \<Rightarrow>
     (case qtd of
        Some t \<Rightarrow> JSON_parse (image' t)
      | None \<Rightarrow> Inr Undefined)))))"

text \<open>\<^verbatim>\<open>rangeLeft\<close> and \<^verbatim>\<open>rangeRight\<close> return the pair \<^verbatim>\<open>{from, to}\<close>.\<close>

fun Visitor_rangeLeft :: "rangeLeft_ctx \<Rightarrow> jsvalue \<times> jsvalue" where
  "Visitor_rangeLeft (rangeLeft_ctx cs) =
     ((case cs of [] \<Rightarrow> Undefined | c0 # _ \<Rightarrow> Visitor_comparable c0),
      (case cs of _ # c1 # _ \<Rightarrow> Visitor_comparable c1 | _ \<Rightarrow> Undefined))"

fun Visitor_rangeRight :: "rangeRight_ctx \<Rightarrow> jsvalue \<times> jsvalue" where
  "Visitor_rangeRight (rangeRight_ctx c) = (Undefined, Visitor_comparable c)"

fun Visitor_range :: "range_ctx \<Rightarrow> (jsvalue \<times> jsvalue) option" where
  "Visitor_range (range_ctx l r) =
     (case l of
        Some x \<Rightarrow> Some (Visitor_rangeLeft x)
      | None \<Rightarrow> (case r of Some y \<Rightarrow> Some (Visitor_rangeRight y) | None \<Rightarrow> None))"

fun Visitor_fieldStatement :: "fieldStatement_ctx \<Rightarrow> error + Filter" where
  "Visitor_fieldStatement (fieldStatement_ctx idn rng trm) =
     (let fld = Visitor_identifier idn in
      case rng of
        Some g \<Rightarrow>
          (case Visitor_range g of
             None \<Rightarrow> Inl TypeError
           | Some (from_v, to_v) \<Rightarrow>
               if \<not> truthy from_v then
                 Inr \<lparr>type = FilterType.LTE, kind = ''LTE'', field = Some fld,
                      value' = Some to_v, from' = None, to = None, exclude = None\<rparr>
               else if \<not> truthy to_v then
                 Inr \<lparr>type = FilterType.GTE, kind = ''GTE'', field = Some fld,
                      value' = Some from_v, from' = None, to = None, exclude = None\<rparr>
               else
                 Inr \<lparr>type = FilterType.Range, kind = ''Range'', field = Some fld,
                      value' = None, from' = Some from_v, to = Some to_v, exclude = None\<rparr>)
      | None \<Rightarrow>
          (case (case trm of Some t \<Rightarrow> Visitor_term t | None \<Rightarrow> Inr Undefined) of
             Inl e \<Rightarrow> Inl e
           | Inr v \<Rightarrow>
               Inr \<lparr>type = FilterType.Field, kind = ''Field'', field = Some fld,
                    value' = Some v, from' = None, to = None, exclude = None\<rparr>))"

fun Visitor_compareStatement :: "compareStatement_ctx \<Rightarrow> Filter" where
  "Visitor_compareStatement (compareStatement_ctx idn gt gte lt lte cmp) =
     (let node = \<lparr>type = FilterType.GT, kind = ''GT'', field = Some (Visitor_identifier idn),
                  value' = Some (Visitor_comparable cmp), from' = None, to = None,
                  exclude = None\<rparr>
      in if gt \<noteq> None then node\<lparr>type := FilterType.GT, kind := ''GT''\<rparr>
         else if gte \<noteq> None then node\<lparr>type := FilterType.GTE, kind := ''GTE''\<rparr>
         else if lt \<noteq> None then node\<lparr>type := FilterType.LT, kind := ''LT''\<rparr>
         else if lte \<noteq> None then node\<lparr>type := FilterType.LTE, kind := ''LTE''\<rparr>
         else node)"

text \<open>
  \<^verbatim>\<open>statement\<close> returns a filter object, or \<^verbatim>\<open>undefined\<close> (\<open>None\<close>) when the node
  has none of the four children. \<^verbatim>\<open>negativeStatement\<close> reads \<^verbatim>\<open>node.exclude\<close>: a
  \<^verbatim>\<open>TypeError\<close> when \<^verbatim>\<open>node\<close> is \<^verbatim>\<open>undefined\<close>.
\<close>

fun Visitor_statement :: "statement_ctx \<Rightarrow> error + Filter option"
  and Visitor_negativeStatement :: "negativeStatement_ctx \<Rightarrow> error + Filter"
where
  "Visitor_statement (statement_ctx (Some n) fld cmp trm) =
     (case Visitor_negativeStatement n of Inl e \<Rightarrow> Inl e | Inr node \<Rightarrow> Inr (Some node))"
| "Visitor_statement (statement_ctx None (Some f) cmp trm) =
     (case Visitor_fieldStatement f of Inl e \<Rightarrow> Inl e | Inr node \<Rightarrow> Inr (Some node))"
| "Visitor_statement (statement_ctx None None (Some c) trm) =
     Inr (Some (Visitor_compareStatement c))"
| "Visitor_statement (statement_ctx None None None (Some t)) =
     (case Visitor_term t of
        Inl e \<Rightarrow> Inl e
      | Inr v \<Rightarrow>
          Inr (Some \<lparr>type = FilterType.Term, kind = ''Term'', field = None, value' = Some v,
                     from' = None, to = None, exclude = None\<rparr>))"
| "Visitor_statement (statement_ctx None None None None) = Inr None"
| "Visitor_negativeStatement (negativeStatement_ctx s) =
     (case Visitor_statement s of
        Inl e \<Rightarrow> Inl e
      | Inr None \<Rightarrow> Inl TypeError
      | Inr (Some node) \<Rightarrow>
          if exclude node = Some True then Inr (node\<lparr>exclude := None\<rparr>)
          else Inr (node\<lparr>exclude := Some True\<rparr>))"

text \<open>\<^verbatim>\<open>ctx.statement.map((c) => this.visit(c))\<close>: in order, the first error ends it.\<close>

fun visit_each :: "statement_ctx list \<Rightarrow> error + Filter option list" where
  "visit_each [] = Inr []"
| "visit_each (c # cs) =
     (case Visitor_statement c of
        Inl e \<Rightarrow> Inl e
      | Inr node \<Rightarrow> (case visit_each cs of Inl e \<Rightarrow> Inl e | Inr nodes \<Rightarrow> Inr (node # nodes)))"

fun Visitor_statements :: "statements_ctx \<Rightarrow> error + Filter option list" where
  "Visitor_statements (statements_ctx st) =
     (case st of Some cs \<Rightarrow> visit_each cs | None \<Rightarrow> Inr [])"

section \<open>The entry point\<close>

definition parse :: "string \<Rightarrow> error + Filter option list" where
  "parse s =
     (case Parser_statements (tokenize s) of
        Inl e \<Rightarrow> Inl e
      | Inr cst \<Rightarrow> Visitor_statements cst)"

section \<open>Evaluation\<close>

text \<open>
  Facts that let the simplifier run the pipeline on a concrete input. \<open>underflow\<close> is
  the identity from \<open>1 / 1024\<close> upwards, so that no literal of ordinary size needs the
  power \<open>2 ^ 1075\<close> computed.
\<close>

lemma underflow_0: "underflow 0 = 0"
  by (simp add: underflow_def)

lemma underflow_id:
  assumes "1 / 1024 \<le> v"
  shows "underflow v = v"
proof -
  have "(1::rat) / 2 ^ 1075 < 1 / 2 ^ 10"
    by (intro divide_strict_left_mono power_strict_increasing) simp_all
  moreover have "(1::rat) / 2 ^ 10 = 1 / 1024"
    by simp
  ultimately have "\<not> v \<le> 1 / 2 ^ 1075"
    using assms by (metis order.strict_trans2 not_le)
  then show ?thesis
    unfolding underflow_def by (simp only: if_False)
qed

lemmas lexer_eval =
  tokenize.simps tokens_def match_def rmatch.simps(5) Str_def Lit_def Rep1_def Opt_def
  Repeat_def is_space_def is_digit_def is_id_start_def is_id_char_def eval_nat_numeral

lemmas parser_eval =
  Parser_statements_def MANY_statement.simps Parser_statement.simps
  Parser_negativeStatement.simps Parser_compareStatement_def Parser_fieldStatement_def
  Parser_range_def Parser_rangeRight_def Parser_rangeLeft_def Parser_term_def
  Parser_comparable_def Parser_identifier_def CONSUME_def LA_def

lemmas visitor_eval =
  Number_def underflow_0 underflow_id new_Date_def digits_value_def JSON_parse_def
  is_line_terminator_def

lemmas parse_eval = parse_def lexer_eval parser_eval visitor_eval

section \<open>Range bounds\<close>

text \<open>
  Claim C1. For a field statement whose range has both bounds, \<^verbatim>\<open>parse\<close> is said to
  produce a \<open>Range\<close> clause with the field and both bounds, for every numeric left bound,
  0 included. The visitor tests the bounds with \<^verbatim>\<open>!from\<close> and \<^verbatim>\<open>!to\<close>, and the
  number 0 is falsy: for \<^verbatim>\<open>x:0..5\<close> it returns the comparison \<open>LTE\<close> with the value 5,
  while \<^verbatim>\<open>x:1..5\<close> gives the \<open>Range\<close> from 1 to 5.
\<close>

theorem C1_zero_left_bound_is_LTE:
  "parse ''x:0..5'' =
     Inr [Some \<lparr>type = FilterType.LTE, kind = ''LTE'', field = Some (JString ''x''),
                value' = Some (JNumber 5), from' = None, to = None, exclude = None\<rparr>]
   \<and> parse ''x:1..5'' =
     Inr [Some \<lparr>type = FilterType.Range, kind = ''Range'', field = Some (JString ''x''),
                value' = None, from' = Some (JNumber 1), to = Some (JNumber 5),
                exclude = None\<rparr>]"
  by (simp add: parse_eval)

section \<open>Errors that leave \<open>parse\<close>\<close>

text \<open>
  Claim C2. \<^verbatim>\<open>parse\<close> is said to return normally on every input, the visitor raising
  no error on any tree of the grammar engine, quoted terms with arbitrary inner
  characters included. The pattern of \<^verbatim>\<open>QuotedTerm\<close> admits every character but the
  quote and the backslash between the quotes, and the visitor hands the image to
  \<^verbatim>\<open>JSON.parse\<close>, which rejects a control character inside a string literal: on the
  three characters quote, TAB, quote the call ends with a \<^verbatim>\<open>SyntaxError\<close>.
\<close>

theorem C2_quoted_tab_raises_SyntaxError:
  "tokenize [dquote, CHR 0x09, dquote] =
     [\<lparr>tokenType = QuotedTerm, image' = [dquote, CHR 0x09, dquote]\<rparr>]
   \<and> parse [dquote, CHR 0x09, dquote] = Inl SyntaxError"
  by (simp add: parse_eval)

section \<open>Date literals\<close>

text \<open>
  Claim C4. The tokenizer is said to read as one \<^verbatim>\<open>DateLiteral\<close> every date followed
  by a time and \<^verbatim>\<open>Z\<close> or a signed offset, \<^verbatim>\<open>+HH:MM\<close> or \<^verbatim>\<open>-HH:MM\<close>. The pattern
  has \<^verbatim>\<open>\+\<close> only: with the offset \<^verbatim>\<open>+05:00\<close> the text is one \<^verbatim>\<open>DateLiteral\<close>,
  with \<^verbatim>\<open>-05:00\<close> it falls apart into seven tokens, none of them a date.
\<close>

theorem C4_negative_offset_is_not_a_DateLiteral:
  "tokenize ''2020-01-01T10:00:00+05:00'' =
     [\<lparr>tokenType = DateLiteral, image' = ''2020-01-01T10:00:00+05:00''\<rparr>]
   \<and> tokenize ''2020-01-01T10:00:00-05:00'' =
     [\<lparr>tokenType = Term, image' = ''2020-01-01T10''\<rparr>,
      \<lparr>tokenType = EQ, image' = '':''\<rparr>,
      \<lparr>tokenType = NumberLiteral, image' = ''00''\<rparr>,
      \<lparr>tokenType = EQ, image' = '':''\<rparr>,
      \<lparr>tokenType = Term, image' = ''00-05''\<rparr>,
      \<lparr>tokenType = EQ, image' = '':''\<rparr>,
      \<lparr>tokenType = NumberLiteral, image' = ''00''\<rparr>]"
  by (simp add: lexer_eval)

section \<open>Unescaping\<close>

text \<open>
  Claim C7. A \<^verbatim>\<open>Term\<close> token is said to resolve to its text with the backslash of
  every escaped character removed. The pattern of \<^verbatim>\<open>Term\<close> accepts a backslash before
  any white space, a line feed included, and \<^verbatim>\<open>escapeTerm\<close> removes a backslash only
  before a character that \<^verbatim>\<open>.\<close> matches, which a line feed is not: the escaped colon
  of \<^verbatim>\<open>a\:b\<close> loses its backslash, the escaped line feed keeps it.
\<close>

theorem C7_escaped_line_feed_keeps_backslash:
  "parse (''a'' @ [backslash] @ '':b'') =
     Inr [Some \<lparr>type = FilterType.Term, kind = ''Term'', field = None,
                value' = Some (JString ''a:b''), from' = None, to = None, exclude = None\<rparr>]
   \<and> tokenize (''a'' @ [backslash, CHR 0x0A] @ ''b'') =
     [\<lparr>tokenType = Term, image' = ''a'' @ [backslash, CHR 0x0A] @ ''b''\<rparr>]
   \<and> parse (''a'' @ [backslash, CHR 0x0A] @ ''b'') =
     Inr [Some \<lparr>type = FilterType.Term, kind = ''Term'', field = None,
                value' = Some (JString (''a'' @ [backslash, CHR 0x0A] @ ''b'')),
                from' = None, to = None, exclude = None\<rparr>]"
  by (simp add: parse_eval)

section \<open>Shape of the clauses\<close>

text \<open>
  Claim C8. Every clause of the output is said to have a payload that fits its tag, a
  comparison carrying exactly one value. For \<^verbatim>\<open>x:0..*\<close> the bound 0 is falsy, the
  visitor takes the branch of the absent lower bound and stores the upper bound, which
  is \<^verbatim>\<open>undefined\<close>, as the value of an \<open>LTE\<close> comparison.
\<close>

theorem C8_comparison_with_undefined_value:
  "parse ''x:0..*'' =
     Inr [Some \<lparr>type = FilterType.LTE, kind = ''LTE'', field = Some (JString ''x''),
                value' = Some Undefined, from' = None, to = None, exclude = None\<rparr>]"
  by (simp add: parse_eval)

section \<open>White space\<close>

text \<open>A greedy run of one character class stops at the first character outside it.\<close>

lemma rmatch_Kleene_Class:
  "\<exists>rest. rmatch (Kleene (Class P)) s = dropWhile P s # rest"
proof (induction s)
  case Nil
  show ?case by (simp add: rmatch.simps(5))
next
  case (Cons c cs)
  then obtain rest where "rmatch (Kleene (Class P)) cs = dropWhile P cs # rest" ..
  then show ?case by (simp add: rmatch.simps(5) [of _ "c # cs"])
qed

lemma take_Suc_takeWhile:
  "take (Suc (length cs) - length (dropWhile P cs)) (c # cs) = c # takeWhile P cs"
proof -
  have "length cs = length (takeWhile P cs) + length (dropWhile P cs)"
    by (metis length_append takeWhile_dropWhile_id)
  then have "Suc (length cs) - length (dropWhile P cs) = Suc (length (takeWhile P cs))"
    by simp
  then show ?thesis
    by (simp add: takeWhile_eq_take [symmetric])
qed

lemma match_Rep1_Class:
  "match (Rep1 (Class P)) (c # cs) = (if P c then Some (c # takeWhile P cs) else None)"
proof (cases "P c")
  case True
  obtain rest where "rmatch (Kleene (Class P)) cs = dropWhile P cs # rest"
    using rmatch_Kleene_Class by blast
  with True show ?thesis
    by (simp add: match_def Rep1_def take_Suc_takeWhile)
next
  case False
  then show ?thesis by (simp add: match_def Rep1_def)
qed

lemma tokenize_Nil: "tokenize [] = []"
  by (simp add: tokenize.simps)

lemma tokenize_space: "is_space c \<Longrightarrow> tokenize (c # cs) = tokenize (dropWhile is_space cs)"
proof -
  assume c: "is_space c"
  have "first_match tokens (c # cs) = Some (SP, c # takeWhile is_space cs)"
    using c by (simp add: tokens_def match_Rep1_Class)
  moreover have "drop (length (takeWhile is_space cs)) cs = dropWhile is_space cs"
    by (metis dropWhile_eq_drop)
  ultimately show ?thesis
    by (simp add: tokenize.simps [of "c # cs"])
qed

lemma tokenize_dropWhile_space: "tokenize (dropWhile is_space s) = tokenize s"
  by (cases s) (simp_all add: tokenize_space)

lemma parse_no_tokens: "tokenize s = [] \<Longrightarrow> parse s = Inr []"
  by (simp add: parse_def Parser_statements_def MANY_statement.simps LA_def)

text \<open>
  Claim C9. For an input that consists of white space only, the empty string included,
  \<^verbatim>\<open>parse\<close> returns the empty sequence of clauses: the lexer skips the run, the
  \<^verbatim>\<open>MANY\<close> loop of \<^verbatim>\<open>statements\<close> does not iterate, the tree has no
  \<^verbatim>\<open>statement\<close> child and the visitor returns \<^verbatim>\<open>[]\<close>.
\<close>

theorem C9_whitespace_only_is_empty:
  assumes "\<forall>c\<in>set s. is_space c"
  shows "parse s = Inr []"
proof -
  from assms have d: "dropWhile is_space s = []"
    by simp
  have "tokenize s = tokenize (dropWhile is_space s)"
    by (simp only: tokenize_dropWhile_space)
  also have "\<dots> = []"
    by (simp only: d tokenize_Nil)
  finally show ?thesis
    by (rule parse_no_tokens)
qed

theorem C9_whitespace_only_is_empty_witness:
  "parse [] = Inr [] \<and> parse [CHR 0x20, CHR 0x09, CHR 0x0A, CHR 0xA0] = Inr []"
  using C9_whitespace_only_is_empty [of "[]"]
    C9_whitespace_only_is_empty [of "[CHR 0x20, CHR 0x09, CHR 0x0A, CHR 0xA0]"]
  by (simp add: is_space_def)

section \<open>The exclude flag\<close>

text \<open>
  The object literals of \<^verbatim>\<open>fieldStatement\<close>, \<^verbatim>\<open>compareStatement\<close> and
  \<^verbatim>\<open>statement\<close> have no \<^verbatim>\<open>exclude\<close> key; \<^verbatim>\<open>negativeStatement\<close> deletes the key
  or sets it to \<^verbatim>\<open>true\<close>.
\<close>

lemma exclude_fieldStatement: "Visitor_fieldStatement f = Inr node \<Longrightarrow> exclude node = None"
  by (cases f) (auto simp: Let_def split: option.splits sum.splits if_splits prod.splits)

lemma exclude_compareStatement: "exclude (Visitor_compareStatement c) = None"
  by (cases c) (simp add: Let_def)

lemma exclude_statement:
  "Visitor_statement s = Inr (Some node) \<Longrightarrow> exclude node = None \<or> exclude node = Some True"
  "Visitor_negativeStatement n = Inr node \<Longrightarrow> exclude node = None \<or> exclude node = Some True"
proof (induction s and n arbitrary: node and node
    rule: Visitor_statement_Visitor_negativeStatement.induct)
  case (1 n fld cmp trm)
  then show ?case by (auto split: sum.splits)
next
  case (2 f cmp trm)
  then show ?case by (auto split: sum.splits dest: exclude_fieldStatement)
next
  case (3 c trm)
  then show ?case by (auto simp: exclude_compareStatement)
next
  case (4 t)
  then show ?case by (auto split: sum.splits)
next
  case 5
  then show ?case by simp
next
  case (6 s)
  then show ?case by (auto split: sum.splits option.splits if_splits)
qed

lemma exclude_visit_each:
  "visit_each cs = Inr nodes \<Longrightarrow> Some node \<in> set nodes
     \<Longrightarrow> exclude node = None \<or> exclude node = Some True"
proof (induction cs arbitrary: nodes)
  case Nil
  then show ?case by simp
next
  case (Cons c cs)
  from Cons.prems(1) obtain v vs where
    v: "Visitor_statement c = Inr v" "visit_each cs = Inr vs" "nodes = v # vs"
    by (auto split: sum.splits)
  with Cons.prems(2) consider "v = Some node" | "Some node \<in> set vs"
    by auto
  then show ?case
    using v exclude_statement(1) Cons.IH by cases blast+
qed

text \<open>
  Claim C10. The \<^verbatim>\<open>exclude\<close> flag of an output clause is never \<^verbatim>\<open>false\<close>: for every
  clause that \<^verbatim>\<open>parse\<close> returns, the key is absent or its value is \<^verbatim>\<open>true\<close>. The same
  holds for the clauses the visitor returns on any tree \<open>cst\<close>, whichever way the grammar
  engine built it.
\<close>

theorem C10_exclude_absent_or_true:
  assumes "parse s = Inr nodes \<or> Visitor_statements cst = Inr nodes"
    and "Some node \<in> set nodes"
  shows "exclude node = None \<or> exclude node = Some True"
proof -
  from assms(1) obtain cst' where "Visitor_statements cst' = Inr nodes"
    by (auto simp: parse_def split: sum.splits)
  then have "nodes = [] \<or> (\<exists>cs. visit_each cs = Inr nodes)"
    by (cases cst') (auto split: option.splits)
  with assms(2) show ?thesis
    using exclude_visit_each by auto
qed

theorem C10_exclude_absent_or_true_witness:
  "parse ''-a NOT -b c'' =
     Inr [Some \<lparr>type = FilterType.Term, kind = ''Term'', field = None,
                value' = Some (JString ''a''), from' = None, to = None,
                exclude = Some True\<rparr>,
          Some \<lparr>type = FilterType.Term, kind = ''Term'', field = None,
                value' = Some (JString ''b''), from' = None, to = None, exclude = None\<rparr>,
          Some \<lparr>type = FilterType.Term, kind = ''Term'', field = None,
                value' = Some (JString ''c''), from' = None, to = None, exclude = None\<rparr>]
   \<and> (exclude \<lparr>type = FilterType.Term, kind = ''Term'', field = None,
                value' = Some (JString ''a''), from' = None, to = None,
                exclude = Some True\<rparr> = None
        \<or> exclude \<lparr>type = FilterType.Term, kind = ''Term'', field = None,
                value' = Some (JString ''a''), from' = None, to = None,
                exclude = Some True\<rparr> = Some True)"
proof -
  have p: "parse ''-a NOT -b c'' =
     Inr [Some \<lparr>type = FilterType.Term, kind = ''Term'', field = None,
                value' = Some (JString ''a''), from' = None, to = None,
                exclude = Some True\<rparr>,
          Some \<lparr>type = FilterType.Term, kind = ''Term'', field = None,
                value' = Some (JString ''b''), from' = None, to = None, exclude = None\<rparr>,
          Some \<lparr>type = FilterType.Term, kind = ''Term'', field = None,
                value' = Some (JString ''c''), from' = None, to = None, exclude = None\<rparr>]"
    by (simp add: parse_eval)
  show ?thesis
    using p C10_exclude_absent_or_true [OF disjI1 [OF p], of "\<lparr>type = FilterType.Term, kind = ''Term'',
      field = None, value' = Some (JString ''a''), from' = None, to = None,
      exclude = Some True\<rparr>"]
    by simp
qed

section \<open>Negation\<close>

lemma tokenize_step:
  assumes "first_match tokens s = Some (t, img)"
  shows "tokenize s =
    (if skipped t then [] else [\<lparr>tokenType = t, image' = img\<rparr>]) @ tokenize (drop (length img) s)"
proof -
  from assms have "s \<noteq> []"
    using first_match_nonempty by blast
  with assms show ?thesis
    by (subst tokenize.simps) simp
qed

text \<open>The two negation wrappers are lexed as one token in front of the tokens of the rest.\<close>

lemma tokenize_Minus:
  "tokenize (CHR ''-'' # x) = \<lparr>tokenType = Minus, image' = ''-''\<rparr> # tokenize x"
proof -
  have "first_match tokens (CHR ''-'' # x) = Some (Minus, ''-'')"
    by (simp add: tokens_def match_def Rep1_def Str_def Lit_def is_space_def)
  from tokenize_step [OF this] show ?thesis
    by simp
qed

lemma tokenize_NOT:
  "tokenize (''NOT '' @ x) = \<lparr>tokenType = Not', image' = ''NOT''\<rparr> # tokenize x"
proof -
  have "first_match tokens (''NOT '' @ x) = Some (Not', ''NOT'')"
    by (simp add: tokens_def match_def Rep1_def Str_def Lit_def is_space_def rmatch.simps(5))
  from tokenize_step [OF this] have "tokenize (''NOT '' @ x) =
      \<lparr>tokenType = Not', image' = ''NOT''\<rparr> # tokenize (CHR '' '' # x)"
    by simp
  also have "tokenize (CHR '' '' # x) = tokenize x"
    by (simp add: tokenize_space tokenize_dropWhile_space is_space_def)
  finally show ?thesis .
qed

text \<open>Every rule consumes at least one token.\<close>

lemma CONSUME_length: "CONSUME ty ts = Inr (t, r) \<Longrightarrow> length ts = Suc (length r)"
  by (auto simp: CONSUME_def split: list.splits if_splits)

lemma Parser_identifier_length:
  "Parser_identifier ts = Inr (c, r) \<Longrightarrow> length r < length ts"
  by (auto simp: Parser_identifier_def split: sum.splits dest: CONSUME_length)

lemma Parser_term_length: "Parser_term ts = Inr (c, r) \<Longrightarrow> length r < length ts"
  by (auto simp: Parser_term_def split: sum.splits if_splits
      dest: CONSUME_length Parser_identifier_length)

lemma Parser_comparable_length: "Parser_comparable ts = Inr (c, r) \<Longrightarrow> length r < length ts"
  by (auto simp: Parser_comparable_def split: sum.splits if_splits dest: CONSUME_length)

lemma Parser_compareStatement_length:
  "Parser_compareStatement ts = Inr (c, r) \<Longrightarrow> length r < length ts"
proof -
  assume a: "Parser_compareStatement ts = Inr (c, r)"
  then obtain i r1 where i: "Parser_identifier ts = Inr (i, r1)"
    by (auto simp: Parser_compareStatement_def split: sum.splits)
  define op where "op =
    (if LA 1 r1 = Some GT then
       (case CONSUME GT r1 of
          Inl e \<Rightarrow> Inl e | Inr (t, r) \<Rightarrow> Inr ((Some t, None, None, None), r))
     else if LA 1 r1 = Some GTE then
       (case CONSUME GTE r1 of
          Inl e \<Rightarrow> Inl e | Inr (t, r) \<Rightarrow> Inr ((None, Some t, None, None), r))
     else if LA 1 r1 = Some LT then
       (case CONSUME LT r1 of
          Inl e \<Rightarrow> Inl e | Inr (t, r) \<Rightarrow> Inr ((None, None, Some t, None), r))
     else if LA 1 r1 = Some LTE then
       (case CONSUME LTE r1 of
          Inl e \<Rightarrow> Inl e | Inr (t, r) \<Rightarrow> Inr ((None, None, None, Some t), r))
     else Inl RecognitionException)"
  have eq: "Parser_compareStatement ts =
      (case op of
         Inl e \<Rightarrow> Inl e
       | Inr ((gt, gte, lt, lte), r2) \<Rightarrow>
           (case Parser_comparable r2 of
              Inl e \<Rightarrow> Inl e
            | Inr (c, r3) \<Rightarrow> Inr (compareStatement_ctx i gt gte lt lte c, r3)))"
    by (simp add: Parser_compareStatement_def i op_def)
  from a obtain ops r2 c' where o: "op = Inr (ops, r2)"
    and p: "Parser_comparable r2 = Inr (c', r)"
    unfolding eq by (cases op) (auto split: sum.splits prod.splits)
  from o have "length r2 \<le> length r1"
    unfolding op_def by (auto split: if_splits sum.splits dest: CONSUME_length)
  with Parser_identifier_length [OF i] Parser_comparable_length [OF p] show ?thesis
    by simp
qed

lemma Parser_fieldStatement_length:
  "Parser_fieldStatement ts = Inr (c, r) \<Longrightarrow> length r < length ts"
proof -
  assume a: "Parser_fieldStatement ts = Inr (c, r)"
  then obtain i r1 where i: "Parser_identifier ts = Inr (i, r1)"
    by (auto simp: Parser_fieldStatement_def split: sum.splits)
  with a obtain t r2 where e: "CONSUME EQ r1 = Inr (t, r2)"
    by (auto simp: Parser_fieldStatement_def split: sum.splits)
  have "length r \<le> length r2"
  proof -
    have rl: "\<And>ts c r. Parser_rangeLeft ts = Inr (c, r) \<Longrightarrow> length r \<le> length ts"
      by (auto simp: Parser_rangeLeft_def split: sum.splits if_splits
          dest!: Parser_comparable_length CONSUME_length)
    have rr: "\<And>ts c r. Parser_rangeRight ts = Inr (c, r) \<Longrightarrow> length r \<le> length ts"
      by (auto simp: Parser_rangeRight_def split: sum.splits
          dest!: Parser_comparable_length CONSUME_length)
    have rg: "\<And>ts c r. Parser_range ts = Inr (c, r) \<Longrightarrow> length r \<le> length ts"
      by (auto simp: Parser_range_def split: sum.splits if_splits dest: rl rr)
    from a i e show ?thesis
      by (auto simp: Parser_fieldStatement_def split: sum.splits if_splits
          dest: rg Parser_term_length)
  qed
  with Parser_identifier_length [OF i] CONSUME_length [OF e] show ?thesis
    by simp
qed

lemma Parser_statement_length:
  "Parser_statement ts = Inr (s, r) \<Longrightarrow> length r < length ts"
  "Parser_negativeStatement ts = Inr (n, r) \<Longrightarrow> length r < length ts"
proof (induction ts and ts arbitrary: s r and n r
    rule: Parser_statement_Parser_negativeStatement.induct)
  case (1 ts)
  show ?case
  proof (cases "LA 1 ts = Some Not' \<or> LA 1 ts = Some Minus")
    case True
    with "1.prems" obtain n where "Parser_negativeStatement ts = Inr (n, r)"
      by (subst (asm) Parser_statement.simps) (auto split: sum.splits)
    from "1.IH" [OF True this] show ?thesis .
  next
    case False
    with "1.prems" show ?thesis
      by (subst (asm) Parser_statement.simps)
        (auto split: if_splits sum.splits
          dest: Parser_fieldStatement_length Parser_compareStatement_length
            Parser_term_length)
  qed
next
  case (2 ts)
  from "2.prems" obtain t r1 s where
    c: "(if LA 1 ts = Some Not' then CONSUME Not' ts
         else if LA 1 ts = Some Minus then CONSUME Minus ts
         else Inl RecognitionException) = Inr (t, r1)"
    and s: "Parser_statement r1 = Inr (s, r)"
    by (subst (asm) Parser_negativeStatement.simps) (auto split: sum.splits)
  from c have "length ts = Suc (length r1)"
    by (auto split: if_splits dest: CONSUME_length)
  moreover from "2.IH" [OF c refl s] have "length r < length r1" .
  ultimately show ?case
    by simp
qed

text \<open>
  An input that \<^verbatim>\<open>parse\<close> resolves to exactly one clause is one statement that takes
  all the tokens.
\<close>

definition first_of_statement :: "TokenType set" where
  "first_of_statement = {Not', Minus, ID, DateLiteral, NumberLiteral, Term, QuotedTerm}"

lemma MANY_statement_Nil: "MANY_statement [] = Inr []"
  by (simp add: MANY_statement.simps LA_def)

lemma MANY_statement_empty: "MANY_statement ts = Inr [] \<Longrightarrow> ts = []"
  by (subst (asm) MANY_statement.simps) (auto split: if_splits sum.splits)

lemma MANY_statement_single:
  "MANY_statement ts = Inr [s] \<longleftrightarrow>
     LA 1 ts \<in> Some ` first_of_statement \<and> Parser_statement ts = Inr (s, [])"
proof
  assume a: "MANY_statement ts = Inr [s]"
  then have la: "LA 1 ts \<in> Some ` first_of_statement"
    unfolding first_of_statement_def
    by (subst (asm) MANY_statement.simps) (auto split: if_splits)
  with a obtain r where p: "Parser_statement ts = Inr (s, r)"
    and m: "if length r < length ts then MANY_statement r = Inr [] else True"
    unfolding first_of_statement_def
    by (subst (asm) MANY_statement.simps) (auto split: if_splits sum.splits)
  from Parser_statement_length(1) [OF p] m have "MANY_statement r = Inr []"
    by simp
  then have "r = []"
    by (rule MANY_statement_empty)
  with la p show "LA 1 ts \<in> Some ` first_of_statement \<and> Parser_statement ts = Inr (s, [])"
    by simp
next
  assume a: "LA 1 ts \<in> Some ` first_of_statement \<and> Parser_statement ts = Inr (s, [])"
  then have "ts \<noteq> []"
    by (auto simp: LA_def)
  with a show "MANY_statement ts = Inr [s]"
    unfolding first_of_statement_def
    by (subst MANY_statement.simps) (simp add: MANY_statement_Nil)
qed

lemma visit_each_length: "visit_each cs = Inr nodes \<Longrightarrow> length nodes = length cs"
  by (induction cs arbitrary: nodes) (auto split: sum.splits)

lemma parse_single:
  "parse x = Inr [v] \<longleftrightarrow>
     (\<exists>s. LA 1 (tokenize x) \<in> Some ` first_of_statement
        \<and> Parser_statement (tokenize x) = Inr (s, []) \<and> Visitor_statement s = Inr v)"
proof
  assume a: "parse x = Inr [v]"
  then obtain ss where m: "MANY_statement (tokenize x) = Inr ss"
    and v: "Visitor_statements (statements_ctx (if ss = [] then None else Some ss)) = Inr [v]"
    by (auto simp: parse_def Parser_statements_def split: sum.splits)
  from v have ne: "ss \<noteq> []" and e: "visit_each ss = Inr [v]"
    by (auto split: if_splits)
  from visit_each_length [OF e] obtain s where s: "ss = [s]"
    by (cases ss) auto
  with e have "Visitor_statement s = Inr v"
    by (auto split: sum.splits)
  with m s show "\<exists>s. LA 1 (tokenize x) \<in> Some ` first_of_statement
        \<and> Parser_statement (tokenize x) = Inr (s, []) \<and> Visitor_statement s = Inr v"
    by (auto simp: MANY_statement_single)
next
  assume "\<exists>s. LA 1 (tokenize x) \<in> Some ` first_of_statement
        \<and> Parser_statement (tokenize x) = Inr (s, []) \<and> Visitor_statement s = Inr v"
  then obtain s where "MANY_statement (tokenize x) = Inr [s]" "Visitor_statement s = Inr v"
    by (auto simp: MANY_statement_single)
  then show "parse x = Inr [v]"
    by (simp add: parse_def Parser_statements_def)
qed

text \<open>A negation token in front of a statement wraps the statement.\<close>

lemma Parser_statement_negative:
  assumes "tokenType t = Not' \<or> tokenType t = Minus"
  shows "Parser_statement (t # ts) =
    (case Parser_statement ts of
       Inl e \<Rightarrow> Inl e
     | Inr (s, r) \<Rightarrow> Inr (statement_ctx (Some (negativeStatement_ctx s)) None None None, r))"
  using assms
  by (subst Parser_statement.simps, subst Parser_negativeStatement.simps)
    (auto simp: LA_def CONSUME_def split: sum.splits)

lemma parse_negative:
  assumes x: "parse x = Inr [Some c]"
    and t: "tokenize y = \<lparr>tokenType = ty, image' = img\<rparr> # tokenize x"
    and ty: "ty = Not' \<or> ty = Minus"
  shows "parse y =
    Inr [Some (if exclude c = Some True then c\<lparr>exclude := None\<rparr>
               else c\<lparr>exclude := Some True\<rparr>)]"
proof -
  from x obtain s where s: "Parser_statement (tokenize x) = Inr (s, [])"
    "Visitor_statement s = Inr (Some c)"
    by (auto simp: parse_single)
  let ?s = "statement_ctx (Some (negativeStatement_ctx s)) None None None"
  have "LA 1 (tokenize y) \<in> Some ` first_of_statement"
    using ty by (auto simp: t LA_def first_of_statement_def)
  moreover have "Parser_statement (tokenize y) = Inr (?s, [])"
    using ty s(1) by (simp add: t Parser_statement_negative)
  moreover have "Visitor_statement ?s =
    Inr (Some (if exclude c = Some True then c\<lparr>exclude := None\<rparr>
               else c\<lparr>exclude := Some True\<rparr>))"
    using s(2) by simp
  ultimately show ?thesis
    unfolding parse_single by blast
qed

text \<open>
  Claim C5. Negation toggles the \<^verbatim>\<open>exclude\<close> flag once per wrapper, \<^verbatim>\<open>NOT\<close> or
  \<^verbatim>\<open>-\<close>. For a statement \<open>x\<close> that \<^verbatim>\<open>parse\<close> resolves to one clause \<open>c\<close>,
  \<^verbatim>\<open>NOT NOT x\<close> resolves to \<open>c\<close> again; when \<open>c\<close> is not marked, \<^verbatim>\<open>NOT x\<close> and
  \<^verbatim>\<open>-x\<close> resolve to \<open>c\<close> with \<^verbatim>\<open>exclude = true\<close>, and under any sequence \<open>ws\<close> of
  wrappers the clause is marked when their number is odd and unmarked when it is even.
\<close>

theorem C5_negation_toggles_exclude:
  assumes "parse x = Inr [Some c]"
  shows "parse (''NOT NOT '' @ x) = Inr [Some c]
    \<and> (exclude c = None \<longrightarrow>
         parse (''NOT '' @ x) = Inr [Some (c\<lparr>exclude := Some True\<rparr>)]
       \<and> parse (''-'' @ x) = Inr [Some (c\<lparr>exclude := Some True\<rparr>)]
       \<and> (\<forall>ws. set ws \<subseteq> {''NOT '', ''-''} \<longrightarrow>
            parse (concat ws @ x) =
              Inr [Some (if odd (length ws) then c\<lparr>exclude := Some True\<rparr> else c)]))"
proof -
  let ?toggle = "\<lambda>c. if exclude c = Some True then c\<lparr>exclude := None\<rparr>
                     else c\<lparr>exclude := Some True\<rparr>"
  have NOT: "parse (''NOT '' @ y) = Inr [Some (?toggle d)]" if "parse y = Inr [Some d]" for y d
    using parse_negative [OF that tokenize_NOT] by simp
  have Minus: "parse (''-'' @ y) = Inr [Some (?toggle d)]" if "parse y = Inr [Some d]" for y d
    using parse_negative [OF that, of "''-'' @ y" Minus "''-''"] tokenize_Minus by simp
  from assms obtain s where "Visitor_statement s = Inr (Some c)"
    by (auto simp: parse_single)
  then have ex: "exclude c = None \<or> exclude c = Some True"
    by (rule exclude_statement(1))
  have "parse (''NOT '' @ ''NOT '' @ x) = Inr [Some (?toggle (?toggle c))]"
    by (rule NOT [OF NOT [OF assms]])
  moreover have "?toggle (?toggle c) = c"
    using ex by auto
  ultimately have twice: "parse (''NOT NOT '' @ x) = Inr [Some c]"
    by simp
  have many: "parse (concat ws @ x) =
      Inr [Some (if odd (length ws) then c\<lparr>exclude := Some True\<rparr> else c)]"
    if c: "exclude c = None" and ws: "set ws \<subseteq> {''NOT '', ''-''}" for ws
    using ws
  proof (induction ws)
    case Nil
    show ?case using assms by simp
  next
    case (Cons w ws)
    let ?d = "if odd (length ws) then c\<lparr>exclude := Some True\<rparr> else c"
    from Cons have ih: "parse (concat ws @ x) = Inr [Some ?d]"
      by simp
    from Cons.prems have "w = ''NOT '' \<or> w = ''-''"
      by simp
    then have "parse (w @ concat ws @ x) = Inr [Some (?toggle ?d)]"
      using NOT [OF ih] Minus [OF ih] by blast
    moreover have "?toggle ?d = (if odd (length (w # ws)) then c\<lparr>exclude := Some True\<rparr> else c)"
      using c by simp
    ultimately show ?case
      by simp
  qed
  have "parse (''NOT '' @ x) = Inr [Some (c\<lparr>exclude := Some True\<rparr>)]" if "exclude c = None"
    using NOT [OF assms] that by simp
  moreover have "parse (''-'' @ x) = Inr [Some (c\<lparr>exclude := Some True\<rparr>)]"
    if "exclude c = None"
    using Minus [OF assms] that by simp
  ultimately show ?thesis
    using twice many by blast
qed

theorem C5_negation_toggles_exclude_witness:
  "parse ''a'' =
     Inr [Some \<lparr>type = FilterType.Term, kind = ''Term'', field = None,
                value' = Some (JString ''a''), from' = None, to = None, exclude = None\<rparr>]
   \<and> parse ''NOT NOT a'' =
     Inr [Some \<lparr>type = FilterType.Term, kind = ''Term'', field = None,
                value' = Some (JString ''a''), from' = None, to = None, exclude = None\<rparr>]
   \<and> parse ''NOT a'' =
     Inr [Some \<lparr>type = FilterType.Term, kind = ''Term'', field = None,
                value' = Some (JString ''a''), from' = None, to = None,
                exclude = Some True\<rparr>]
   \<and> parse ''-a'' =
     Inr [Some \<lparr>type = FilterType.Term, kind = ''Term'', field = None,
                value' = Some (JString ''a''), from' = None, to = None,
                exclude = Some True\<rparr>]
   \<and> parse ''NOT -NOT a'' =
     Inr [Some \<lparr>type = FilterType.Term, kind = ''Term'', field = None,
                value' = Some (JString ''a''), from' = None, to = None,
                exclude = Some True\<rparr>]"
proof -
  let ?c = "\<lparr>type = FilterType.Term, kind = ''Term'', field = None,
             value' = Some (JString ''a''), from' = None, to = None, exclude = None\<rparr>"
  have p: "parse ''a'' = Inr [Some ?c]"
    by (simp add: parse_eval)
  note t = C5_negation_toggles_exclude [OF p]
  from t have m: "\<And>ws. set ws \<subseteq> {''NOT '', ''-''} \<Longrightarrow>
      parse (concat ws @ ''a'') =
        Inr [Some (if odd (length ws) then ?c\<lparr>exclude := Some True\<rparr> else ?c)]"
    by simp
  from p t m [of "[''NOT '', ''-'', ''NOT '']"] show ?thesis
    by simp
qed

section \<open>Bare words\<close>

text \<open>
  A bare word: a non-empty run of characters that are neither white space nor one of
  backslash, colon, dot, double quote, star and minus.
\<close>

definition plain :: "char \<Rightarrow> bool" where
  "plain c \<longleftrightarrow>
     \<not> is_space c \<and> c \<notin> set [backslash, CHR '':'', CHR ''.'', dquote, CHR ''*'', CHR ''-'']"

lemma match_take: "match r s = Some img \<Longrightarrow> \<exists>n. img = take n s"
  by (auto simp: match_def split: list.splits)

lemma match_whole: "match r s = Some img \<Longrightarrow> length s \<le> length img \<Longrightarrow> img = s"
  using match_take by fastforce

lemma rmatch_Kleene_Term_plain:
  fixes A B
  defines "A \<equiv> Class (\<lambda>c. \<not> (c = backslash \<or> is_space c \<or> c = CHR '':'' \<or> c = CHR ''.''))"
    and "B \<equiv> Cat (Lit backslash) (Class (\<lambda>c. is_space c \<or> c = CHR '':'' \<or> c = CHR ''.''))"
  assumes "list_all plain w"
  shows "\<exists>rest. rmatch (Kleene (Alt A B)) w = [] # rest"
  using assms(3)
proof (induction w)
  case Nil
  show ?case by (simp add: rmatch.simps(5) A_def B_def Lit_def)
next
  case (Cons c cs)
  then obtain rest where "rmatch (Kleene (Alt A B)) cs = [] # rest"
    by auto
  moreover from Cons.prems have "rmatch (Alt A B) (c # cs) = [cs]"
    by (simp add: A_def B_def Lit_def plain_def)
  ultimately show ?case
    by (simp add: rmatch.simps(5) [of _ "c # cs"])
qed

lemma match_Term_plain:
  assumes "list_all plain w" "w \<noteq> []"
  shows "match (pattern Term) w = Some w"
proof -
  from assms obtain c cs where w: "w = c # cs"
    by (cases w) auto
  with assms(1) have "list_all plain cs" "plain c"
    by simp_all
  from rmatch_Kleene_Term_plain [OF this(1)] \<open>plain c\<close> show ?thesis
    by (auto simp: w match_def Rep1_def Lit_def plain_def)
qed

lemma escapeTerm_plain: "backslash \<notin> set w \<Longrightarrow> escapeTerm w = w"
  by (induction w rule: escapeTerm.induct) auto

text \<open>
  The tokens whose pattern cannot start at a plain character, and the token \<^verbatim>\<open>Not\<close>,
  which matches the text \<^verbatim>\<open>NOT\<close> only.
\<close>

lemma match_none_plain:
  assumes "plain c"
    and "t \<in> {SP, Minus, GTE, GT, LTE, LT, EQ, DoubleDot, Star, QuotedTerm}"
  shows "match (pattern t) (c # cs) = None"
  using assms by (auto simp: match_def Rep1_def Str_def Lit_def plain_def)

lemma match_Not: "match (pattern Not') w = Some img \<Longrightarrow> img = ''NOT''"
  by (auto simp: match_def Str_def Lit_def split: list.splits if_splits)

text \<open>
  The lexer's answer on a bare word \<open>w\<close>: one token with the image \<open>w\<close>. Its type is
  \<^verbatim>\<open>Not\<close> when \<open>w\<close> is \<^verbatim>\<open>NOT\<close>, and one of the four types that \<^verbatim>\<open>term\<close> accepts
  otherwise.
\<close>

definition whole_word :: "string \<Rightarrow> (TokenType \<times> string) option \<Rightarrow> bool" where
  "whole_word w r \<longleftrightarrow>
     (\<exists>t. r = Some (t, w) \<and>
        (t = ID \<or> t = DateLiteral \<or> t = NumberLiteral \<or> t = Term \<or> t = Not' \<and> w = ''NOT''))"

lemma whole_word_none:
  "match (pattern t) w = None \<Longrightarrow> whole_word w (first_match ts w)
     \<Longrightarrow> whole_word w (first_match (t # ts) w)"
  by simp

lemma whole_word_alt:
  assumes alt: "longer_alt t = Some Term"
    and t: "t = ID \<or> t = DateLiteral \<or> t = NumberLiteral \<or> t = Not'"
    and w: "match (pattern Term) w = Some w"
    and rest: "whole_word w (first_match ts w)"
  shows "whole_word w (first_match (t # ts) w)"
proof (cases "match (pattern t) w")
  case None
  with rest show ?thesis by simp
next
  case (Some img)
  show ?thesis
  proof (cases "length img < length w")
    case True
    with Some alt w show ?thesis
      by (simp add: whole_word_def del: pattern.simps)
  next
    case False
    with match_whole [OF Some] have "img = w"
      by simp
    moreover from this Some have "t = Not' \<Longrightarrow> w = ''NOT''"
      using match_Not by blast
    ultimately show ?thesis
      using Some alt w t by (auto simp: whole_word_def simp del: pattern.simps)
  qed
qed

lemma first_match_word:
  assumes "list_all plain w" "w \<noteq> []"
  shows "whole_word w (first_match tokens w)"
proof -
  from assms obtain c cs where w: "w = c # cs" and c: "plain c"
    by (cases w) auto
  note full = match_Term_plain [OF assms]
  note none = whole_word_none [OF match_none_plain [OF c], of _ cs, folded w]
  note alt = whole_word_alt [OF _ _ full]
  have s15: "whole_word w (first_match [Term] w)"
    by (simp add: full whole_word_def del: pattern.simps)
  have s14: "whole_word w (first_match [QuotedTerm, Term] w)"
    by (rule none [OF _ s15]) simp
  have s13: "whole_word w (first_match [NumberLiteral, QuotedTerm, Term] w)"
    by (rule alt [OF _ _ s14]) simp_all
  have s12: "whole_word w (first_match [DateLiteral, NumberLiteral, QuotedTerm, Term] w)"
    by (rule alt [OF _ _ s13]) simp_all
  have s11: "whole_word w (first_match [Star, DateLiteral, NumberLiteral, QuotedTerm, Term] w)"
    by (rule none [OF _ s12]) simp
  have s10: "whole_word w (first_match [DoubleDot, Star, DateLiteral, NumberLiteral, QuotedTerm, Term] w)"
    by (rule none [OF _ s11]) simp
  have s9: "whole_word w (first_match [EQ, DoubleDot, Star, DateLiteral, NumberLiteral, QuotedTerm, Term] w)"
    by (rule none [OF _ s10]) simp
  have s8: "whole_word w (first_match [LT, EQ, DoubleDot, Star, DateLiteral, NumberLiteral, QuotedTerm,
      Term] w)"
    by (rule none [OF _ s9]) simp
  have s7: "whole_word w (first_match [LTE, LT, EQ, DoubleDot, Star, DateLiteral, NumberLiteral, QuotedTerm,
      Term] w)"
    by (rule none [OF _ s8]) simp
  have s6: "whole_word w (first_match [GT, LTE, LT, EQ, DoubleDot, Star, DateLiteral, NumberLiteral,
      QuotedTerm, Term] w)"
    by (rule none [OF _ s7]) simp
  have s5: "whole_word w (first_match [GTE, GT, LTE, LT, EQ, DoubleDot, Star, DateLiteral, NumberLiteral,
      QuotedTerm, Term] w)"
    by (rule none [OF _ s6]) simp
  have s4: "whole_word w (first_match [ID, GTE, GT, LTE, LT, EQ, DoubleDot, Star, DateLiteral,
      NumberLiteral, QuotedTerm, Term] w)"
    by (rule alt [OF _ _ s5]) simp_all
  have s3: "whole_word w (first_match [Minus, ID, GTE, GT, LTE, LT, EQ, DoubleDot, Star, DateLiteral,
      NumberLiteral, QuotedTerm, Term] w)"
    by (rule none [OF _ s4]) simp
  have s2: "whole_word w (first_match [Not', Minus, ID, GTE, GT, LTE, LT, EQ, DoubleDot, Star, DateLiteral,
      NumberLiteral, QuotedTerm, Term] w)"
    by (rule alt [OF _ _ s3]) simp_all
  have s1: "whole_word w (first_match [SP, Not', Minus, ID, GTE, GT, LTE, LT, EQ, DoubleDot, Star,
      DateLiteral, NumberLiteral, QuotedTerm, Term] w)"
    by (rule none [OF _ s2]) simp
  from s1 show ?thesis
    by (simp only: tokens_def)
qed

lemma tokenize_word:
  assumes "list_all plain w" "w \<noteq> []"
  shows "\<exists>t. tokenize w = [\<lparr>tokenType = t, image' = w\<rparr>] \<and>
    (t = ID \<or> t = DateLiteral \<or> t = NumberLiteral \<or> t = Term \<or> t = Not' \<and> w = ''NOT'')"
proof -
  from first_match_word [OF assms] obtain t where
    t: "first_match tokens w = Some (t, w)"
    "t = ID \<or> t = DateLiteral \<or> t = NumberLiteral \<or> t = Term \<or> t = Not' \<and> w = ''NOT''"
    by (auto simp: whole_word_def)
  from t(2) have "\<not> skipped t"
    by auto
  with tokenize_step [OF t(1)] have "tokenize w = [\<lparr>tokenType = t, image' = w\<rparr>]"
    by (simp add: tokenize_Nil)
  with t(2) show ?thesis
    by blast
qed

text \<open>The statement that the grammar engine builds from a single token that is a term.\<close>

lemma Parser_statement_one_term:
  assumes "t = ID \<or> t = DateLiteral \<or> t = NumberLiteral \<or> t = Term"
  shows "\<exists>tc. Parser_statement [\<lparr>tokenType = t, image' = w\<rparr>] =
        Inr (statement_ctx None None None (Some tc), [])
      \<and> Visitor_term tc = Inr (JString (if t = Term then escapeTerm w else w))"
  using assms
  by (subst Parser_statement.simps)
    (auto simp: LA_def CONSUME_def Parser_term_def Parser_identifier_def)

text \<open>
  Claim C3. A single bare word is said to resolve to exactly one \<open>Term\<close> clause whose
  value is the word, also for words that begin with or equal \<^verbatim>\<open>NOT\<close>. The word
  \<^verbatim>\<open>NOT\<close> itself is lexed as the keyword token \<^verbatim>\<open>Not\<close>, which starts a
  \<^verbatim>\<open>negativeStatement\<close> and which \<^verbatim>\<open>term\<close> does not accept: \<^verbatim>\<open>parse("NOT")\<close>
  is not the clause \<open>Term\<close> of \<^verbatim>\<open>NOT\<close>.
\<close>

theorem C3_NOT_is_not_a_Term:
  "tokenize ''NOT'' = [\<lparr>tokenType = Not', image' = ''NOT''\<rparr>]
   \<and> parse ''NOT'' \<noteq>
     Inr [Some \<lparr>type = FilterType.Term, kind = ''Term'', field = None,
                value' = Some (JString ''NOT''), from' = None, to = None, exclude = None\<rparr>]"
  by (simp add: parse_eval)

text \<open>
  Claim C3, amended. For every bare word other than \<^verbatim>\<open>NOT\<close>, \<^verbatim>\<open>parse\<close> yields
  exactly one \<open>Term\<close> clause whose value is the word; the words that begin with
  \<^verbatim>\<open>NOT\<close> and go on are among them.
\<close>

theorem C3_bare_word_is_one_Term:
  assumes "w \<noteq> []" and "\<forall>c\<in>set w. plain c" and "w \<noteq> ''NOT''"
  shows "parse w =
    Inr [Some \<lparr>type = FilterType.Term, kind = ''Term'', field = None,
               value' = Some (JString w), from' = None, to = None, exclude = None\<rparr>]"
proof -
  from assms(2) have p: "list_all plain w"
    by (simp add: list_all_iff)
  from tokenize_word [OF p assms(1)] assms(3) obtain t where
    tok: "tokenize w = [\<lparr>tokenType = t, image' = w\<rparr>]"
    and t: "t = ID \<or> t = DateLiteral \<or> t = NumberLiteral \<or> t = Term"
    by auto
  from Parser_statement_one_term [OF t, of w] obtain tc where
    tc: "Parser_statement [\<lparr>tokenType = t, image' = w\<rparr>] =
        Inr (statement_ctx None None None (Some tc), [])"
    "Visitor_term tc = Inr (JString (if t = Term then escapeTerm w else w))"
    by blast
  from assms(2) have "backslash \<notin> set w"
    by (auto simp: plain_def)
  then have "escapeTerm w = w"
    by (rule escapeTerm_plain)
  with tc(2) have v: "Visitor_statement (statement_ctx None None None (Some tc)) =
    Inr (Some \<lparr>type = FilterType.Term, kind = ''Term'', field = None,
               value' = Some (JString w), from' = None, to = None, exclude = None\<rparr>)"
    by simp
  have "LA 1 (tokenize w) \<in> Some ` first_of_statement"
    using t by (auto simp: tok LA_def first_of_statement_def)
  with tc(1) v show ?thesis
    unfolding parse_single tok by blast
qed

theorem C3_bare_word_is_one_Term_witness:
  "parse ''NOTE'' =
     Inr [Some \<lparr>type = FilterType.Term, kind = ''Term'', field = None,
                value' = Some (JString ''NOTE''), from' = None, to = None, exclude = None\<rparr>]
   \<and> parse ''3rd_floor!'' =
     Inr [Some \<lparr>type = FilterType.Term, kind = ''Term'', field = None,
                value' = Some (JString ''3rd_floor!''), from' = None, to = None,
                exclude = None\<rparr>]"
  using C3_bare_word_is_one_Term [of "''NOTE''"] C3_bare_word_is_one_Term [of "''3rd_floor!''"]
  by (simp add: plain_def is_space_def)

section \<open>Literals in term position and in comparable position\<close>

text \<open>
  The texts of the two literal tokens, described without the lexer. A number is written
  with an integer part and, optionally, a dot and a fraction part; each part is the
  decimal numeral of a natural number behind any number of zeros. A date is written
  after one of three templates, in which \<^verbatim>\<open>9\<close> stands for a digit.
\<close>

definition digit_char :: "nat \<Rightarrow> char" where
  "digit_char m = ''0123456789'' ! m"

fun dec :: "nat \<Rightarrow> string" where
  "dec k = (if k < 10 then [digit_char k] else dec (k div 10) @ [digit_char (k mod 10)])"

declare dec.simps [simp del]

definition numeral_text :: "nat \<Rightarrow> nat \<Rightarrow> string" where
  "numeral_text z k = replicate z CHR ''0'' @ dec k"

fun fits :: "string \<Rightarrow> string \<Rightarrow> bool" where
  "fits [] [] = True"
| "fits (p # ps) (c # cs) = ((if p = CHR ''9'' then is_digit c else c = p) \<and> fits ps cs)"
| "fits _ _ = False"

definition date_text :: "string \<Rightarrow> bool" where
  "date_text d \<longleftrightarrow>
     fits ''9999-99-99'' d \<or> fits ''9999-99-99T99:99:99Z'' d
     \<or> fits ''9999-99-99T99:99:99+99:99'' d"

text \<open>
  A literal, the text it is written as, the token type the grammar expects for it, and
  the value the text denotes: the number with its rounding to zero, or the date object.
\<close>

datatype literal =
  IntegerLit nat nat \<comment> \<open>leading zeros, value\<close>
  | DecimalLit nat nat nat nat \<comment> \<open>the same for the integer part and for the fraction part\<close>
  | DateLit string

fun text_of :: "literal \<Rightarrow> string" where
  "text_of (IntegerLit z k) = numeral_text z k"
| "text_of (DecimalLit z k y j) = numeral_text z k @ ''.'' @ numeral_text y j"
| "text_of (DateLit d) = d"

fun value_of :: "literal \<Rightarrow> jsvalue" where
  "value_of (IntegerLit z k) = JNumber (of_nat k)"
| "value_of (DecimalLit z k y j) =
     JNumber (underflow (of_nat k + of_nat j / 10 ^ length (numeral_text y j)))"
| "value_of (DateLit d) = JDate d"

fun token_of :: "literal \<Rightarrow> TokenType" where
  "token_of (DateLit d) = DateLiteral"
| "token_of _ = NumberLiteral"

fun literal_ok :: "literal \<Rightarrow> bool" where
  "literal_ok (DateLit d) = date_text d"
| "literal_ok _ = True"

text \<open>
  A field name: an identifier that does not begin with \<^verbatim>\<open>NOT\<close>, which the lexer would
  read as the keyword or as a \<^verbatim>\<open>Term\<close>.
\<close>

definition field_name :: "string \<Rightarrow> bool" where
  "field_name f \<longleftrightarrow>
     f \<noteq> [] \<and> is_id_start (hd f) \<and> list_all is_id_char f \<and> take 3 f \<noteq> ''NOT''"

subsection \<open>Digits\<close>

lemma digit_char_cases:
  fixes m :: nat
  assumes "m < 10"
  shows "m \<in> {0, 1, 2, 3, 4, 5, 6, 7, 8, 9}"
  using assms by auto

lemma is_digit_digit_char: "m < 10 \<Longrightarrow> is_digit (digit_char m)"
  by (drule digit_char_cases) (auto simp: is_digit_def digit_char_def)

lemma of_char_digit_char: "m < 10 \<Longrightarrow> of_char (digit_char m) - 48 = m"
  by (drule digit_char_cases) (auto simp: digit_char_def)

lemma digits_dec: "list_all is_digit (dec k)"
proof (induction k rule: dec.induct)
  case (1 k)
  then show ?case
    by (subst dec.simps) (simp add: is_digit_digit_char)
qed

lemma dec_nonempty: "dec k \<noteq> []"
  by (subst dec.simps) simp

lemma digits_value_snoc:
  "digits_value (ds @ [c]) = 10 * digits_value ds + (of_char c - 48)"
  by (simp add: digits_value_def)

lemma digits_value_dec: "digits_value (dec k) = k"
proof (induction k rule: dec.induct)
  case (1 k)
  show ?case
  proof (cases "k < 10")
    case True
    then show ?thesis
      by (subst dec.simps) (simp add: digits_value_def of_char_digit_char)
  next
    case False
    with 1 have "digits_value (dec (k div 10)) = k div 10"
      by simp
    with False show ?thesis
      by (subst dec.simps) (simp add: digits_value_snoc of_char_digit_char)
  qed
qed

lemma digits_value_zeros: "digits_value (replicate z CHR ''0'' @ ds) = digits_value ds"
proof -
  have "foldl (\<lambda>n c. 10 * n + (of_char c - 48)) 0 (replicate z CHR ''0'') = (0::nat)"
    by (induction z) simp_all
  then show ?thesis
    by (simp add: digits_value_def)
qed

lemma digits_numeral_text: "list_all is_digit (numeral_text z k)"
proof -
  have "list_all is_digit (replicate z CHR ''0'')"
    by (simp add: is_digit_def list_all_iff)
  then show ?thesis
    by (simp add: numeral_text_def digits_dec)
qed

lemma numeral_text_nonempty: "numeral_text z k \<noteq> []"
  by (simp add: numeral_text_def dec_nonempty)

lemma digits_value_numeral_text: "digits_value (numeral_text z k) = k"
  by (simp add: numeral_text_def digits_value_zeros digits_value_dec)

lemma digit_facts:
  assumes "is_digit c"
  shows "\<not> is_space c" "\<not> is_id_start c" "c \<noteq> backslash" "c \<noteq> dquote" "c \<noteq> CHR '':''"
    "c \<noteq> CHR ''.''" "c \<noteq> CHR ''-''" "c \<noteq> CHR ''*''" "c \<noteq> CHR ''N''" "c \<noteq> CHR ''T''"
  using assms by (auto simp: is_digit_def is_space_def is_id_start_def)

lemma id_char_facts:
  assumes "is_id_char c"
  shows "\<not> is_space c" "c \<noteq> backslash" "c \<noteq> dquote" "c \<noteq> CHR '':''" "c \<noteq> CHR ''.''"
    "c \<noteq> CHR ''-''" "c \<noteq> CHR ''*''"
  using assms by (auto simp: is_id_char_def is_digit_def is_space_def is_id_start_def)

subsection \<open>Where a token ends\<close>

text \<open>
  A run of characters that \<^verbatim>\<open>Term\<close> accepts unescaped, in front of a text at which
  \<^verbatim>\<open>Term\<close> cannot go on: the end, a colon or a dot.
\<close>

definition term_char :: "char \<Rightarrow> bool" where
  "term_char c \<longleftrightarrow> \<not> (c = backslash \<or> is_space c \<or> c = CHR '':'' \<or> c = CHR ''.'')"

definition term_stop :: "string \<Rightarrow> bool" where
  "term_stop s \<longleftrightarrow> s = [] \<or> hd s = CHR '':'' \<or> hd s = CHR ''.''"

lemma rmatch_Kleene_Term_stop:
  fixes A B
  defines "A \<equiv> Class (\<lambda>c. \<not> (c = backslash \<or> is_space c \<or> c = CHR '':'' \<or> c = CHR ''.''))"
    and "B \<equiv> Cat (Lit backslash) (Class (\<lambda>c. is_space c \<or> c = CHR '':'' \<or> c = CHR ''.''))"
  assumes "list_all term_char w" and "term_stop s"
  shows "\<exists>rest. rmatch (Kleene (Alt A B)) (w @ s) = s # rest"
  using assms(3)
proof (induction w)
  case Nil
  from assms(4) have "rmatch (Alt A B) s = []"
    by (cases s) (auto simp: A_def B_def Lit_def term_stop_def)
  then show ?case
    by (simp add: rmatch.simps(5))
next
  case (Cons c cs)
  then obtain rest where "rmatch (Kleene (Alt A B)) (cs @ s) = s # rest"
    by auto
  moreover from Cons.prems have "rmatch (Alt A B) (c # cs @ s) = [cs @ s]"
    by (simp add: A_def B_def Lit_def term_char_def)
  ultimately show ?case
    by (simp add: rmatch.simps(5) [of _ "c # cs @ s"])
qed

lemma match_Term_stop:
  assumes "list_all term_char w" "w \<noteq> []" "term_stop s"
  shows "match (pattern Term) (w @ s) = Some w"
proof -
  from assms obtain c cs where w: "w = c # cs"
    by (cases w) auto
  with assms(1) have "list_all term_char cs" "term_char c"
    by simp_all
  from rmatch_Kleene_Term_stop [OF this(1) assms(3)] \<open>term_char c\<close> show ?thesis
    by (auto simp: w match_def Rep1_def Lit_def term_char_def)
qed

text \<open>
  A token type with the \<^verbatim>\<open>longer_alt\<close> \<^verbatim>\<open>Term\<close> wins where \<^verbatim>\<open>Term\<close> matches no
  longer text.
\<close>

lemma first_match_alt:
  assumes "match (pattern t) x = Some img"
    and "longer_alt t = Some Term"
    and "match (pattern Term) x = Some img'"
    and "length img' \<le> length img"
  shows "first_match (t # ts) x = Some (t, img)"
  using assms by (simp del: pattern.simps)

lemma first_match_skip:
  "match (pattern t) x = None \<Longrightarrow> first_match (t # ts) x = first_match ts x"
  by (simp del: pattern.simps)

lemma first_match_plain:
  "match (pattern t) x = Some img \<Longrightarrow> longer_alt t = None
     \<Longrightarrow> first_match (t # ts) x = Some (t, img)"
  by (simp del: pattern.simps)

lemma tokenize_cons:
  assumes "first_match tokens (w @ s) = Some (t, w)" and "\<not> skipped t"
  shows "tokenize (w @ s) = \<lparr>tokenType = t, image' = w\<rparr> # tokenize s"
  using tokenize_step [OF assms(1)] assms(2) by simp

text \<open>A literal is followed by the end of the input or by the range separator.\<close>

definition literal_stop :: "string \<Rightarrow> bool" where
  "literal_stop s \<longleftrightarrow> s = [] \<or> take 2 s = ''..''"

lemma literal_stop_cases:
  assumes "literal_stop s"
  obtains "s = []" | s' where "s = CHR ''.'' # CHR ''.'' # s'"
proof -
  from assms consider "s = []" | "take 2 s = ''..''"
    by (auto simp: literal_stop_def)
  then show thesis
  proof cases
    case 1
    then show ?thesis by (rule that(1))
  next
    case 2
    then obtain s' where "s = CHR ''.'' # CHR ''.'' # s'"
      by (cases s; cases "tl s") auto
    then show ?thesis by (rule that(2))
  qed
qed

lemma literal_stop_term_stop: "literal_stop s \<Longrightarrow> term_stop s"
  by (erule literal_stop_cases) (simp_all add: term_stop_def)

lemma digits_term_chars: "list_all is_digit ds \<Longrightarrow> list_all term_char ds"
  by (auto simp: list_all_iff term_char_def dest: digit_facts)

subsection \<open>Number texts\<close>

lemma rmatch_Rep1_Class:
  assumes "list_all P ds" "ds \<noteq> []" "t = [] \<or> \<not> P (hd t)"
  shows "\<exists>rest. rmatch (Rep1 (Class P)) (ds @ t) = t # rest"
proof -
  from assms obtain c cs where ds: "ds = c # cs" "P c" "list_all P cs"
    by (cases ds) auto
  from assms(3) ds(3) have "dropWhile P (cs @ t) = t"
    by (cases t) (auto simp: dropWhile_append list_all_iff)
  with rmatch_Kleene_Class [of P "cs @ t"] ds show ?thesis
    by (simp add: Rep1_def)
qed

lemma rmatch_Rep1_Class_none: "t = [] \<or> \<not> P (hd t) \<Longrightarrow> rmatch (Rep1 (Class P)) t = []"
  by (cases t) (auto simp: Rep1_def)

lemma take_all_but: "take (length (w @ s) - length s) (w @ s) = w"
  by simp

lemma rmatch_Number:
  "rmatch (pattern NumberLiteral) x =
     concat (map (\<lambda>m. rmatch (Cat (Lit CHR ''.'') (Rep1 (Class is_digit))) m @ [m])
               (rmatch (Rep1 (Class is_digit)) x))"
proof -
  have "rmatch (Opt a) = (\<lambda>m. rmatch a m @ [m])" for a
    by (rule ext) (simp add: Opt_def del: rmatch.simps(3))
  then show ?thesis
    by (simp only: pattern.simps rmatch.simps(3) [of "Rep1 (Class is_digit)"])
qed

lemma match_Number_integer:
  assumes "list_all is_digit ds" "ds \<noteq> []" "literal_stop s"
  shows "match (pattern NumberLiteral) (ds @ s) = Some ds"
proof -
  define X where "X = Cat (Lit CHR ''.'') (Rep1 (Class is_digit))"
  from assms(3) have s: "s = [] \<or> \<not> is_digit (hd s)"
    by (rule literal_stop_cases) (simp_all add: is_digit_def)
  from rmatch_Rep1_Class [OF assms(1,2) s] obtain rest where
    r: "rmatch (Rep1 (Class is_digit)) (ds @ s) = s # rest"
    by blast
  have "rmatch X s = []"
    unfolding X_def using assms(3)
    by (rule literal_stop_cases) (simp_all add: Lit_def rmatch_Rep1_Class_none is_digit_def)
  with r have "\<exists>rest'. rmatch (pattern NumberLiteral) (ds @ s) = s # rest'"
    unfolding rmatch_Number X_def [symmetric] by simp
  then show ?thesis
    by (auto simp: match_def take_all_but simp del: pattern.simps)
qed

lemma match_Number_decimal:
  assumes "list_all is_digit ds" "ds \<noteq> []" "list_all is_digit es" "es \<noteq> []" "literal_stop s"
  shows "match (pattern NumberLiteral) ((ds @ ''.'' @ es) @ s) = Some (ds @ ''.'' @ es)"
proof -
  define X where "X = Cat (Lit CHR ''.'') (Rep1 (Class is_digit))"
  from assms(5) have s: "s = [] \<or> \<not> is_digit (hd s)"
    by (rule literal_stop_cases) (simp_all add: is_digit_def)
  have dot: "CHR ''.'' # es @ s = [] \<or> \<not> is_digit (hd (CHR ''.'' # es @ s))"
    by (simp add: is_digit_def)
  from rmatch_Rep1_Class [OF assms(1,2) dot] obtain rest where
    r: "rmatch (Rep1 (Class is_digit)) (ds @ CHR ''.'' # es @ s) = (CHR ''.'' # es @ s) # rest"
    by blast
  from rmatch_Rep1_Class [OF assms(3,4) s] obtain rest' where
    "rmatch (Rep1 (Class is_digit)) (es @ s) = s # rest'"
    by blast
  then have "rmatch X (CHR ''.'' # es @ s) = s # rest'"
    by (simp add: X_def Lit_def)
  with r have "\<exists>rest''. rmatch (pattern NumberLiteral) (ds @ CHR ''.'' # es @ s) = s # rest''"
    unfolding rmatch_Number X_def [symmetric] by simp
  then obtain rest'' where
    "rmatch (pattern NumberLiteral) ((ds @ ''.'' @ es) @ s) = s # rest''"
    by auto
  then show ?thesis
    unfolding match_def by (simp only: list.case take_all_but)
qed

text \<open>At a digit the lexer gets as far as the two literal tokens.\<close>

lemma match_none_digit:
  assumes "is_digit c"
    and "t \<in> {SP, Not', Minus, ID, GTE, GT, LTE, LT, EQ, DoubleDot, Star}"
  shows "match (pattern t) (c # cs) = None"
  using assms(2) digit_facts [OF assms(1)]
  by (auto simp: match_def Rep1_def Str_def Lit_def)

lemma first_match_digit:
  assumes "is_digit c"
  shows "first_match tokens (c # cs) =
    first_match [DateLiteral, NumberLiteral, QuotedTerm, Term] (c # cs)"
  unfolding tokens_def
  by (simp add: match_none_digit [OF assms] del: pattern.simps)

subsection \<open>Date texts\<close>

text \<open>Concatenations that begin with a character class are matched one character at a time.\<close>

lemma rmatch_Cat_Class:
  "rmatch (Cat (Class P) r) x = (case x of [] \<Rightarrow> [] | c # cs \<Rightarrow> if P c then rmatch r cs else [])"
  by (cases x) simp_all

lemma concat_map_concat_map:
  "concat (map f (concat (map g xs))) = concat (map (\<lambda>x. concat (map f (g x))) xs)"
  by (induction xs) simp_all

lemma rmatch_Cat_Cat: "rmatch (Cat (Cat a b) r) x = rmatch (Cat a (Cat b r)) x"
proof -
  have "rmatch (Cat b r) = (\<lambda>x. concat (map (rmatch r) (rmatch b x)))"
    by (rule ext) simp
  then show ?thesis
    by (simp add: concat_map_concat_map)
qed

lemma rmatch_Cat_Eps: "rmatch (Cat Eps r) x = rmatch r x"
  by simp

lemma rmatch_Cat_Alt: "rmatch (Cat (Alt a b) r) x = rmatch (Cat a r) x @ rmatch (Cat b r) x"
  by simp

lemmas regex_steps = rmatch_Cat_Class rmatch_Cat_Cat rmatch_Cat_Eps rmatch_Cat_Alt

lemma fits_Nil: "fits [] d \<longleftrightarrow> d = []"
  by (cases d) simp_all

lemma fits_Cons:
  "fits (p # ps) d \<longleftrightarrow>
     (\<exists>c cs. d = c # cs \<and> (if p = CHR ''9'' then is_digit c else c = p) \<and> fits ps cs)"
  by (cases d) simp_all

lemma date_starts:
  assumes "match (pattern DateLiteral) x = Some img"
  shows "\<exists>t. dropWhile is_digit x = CHR ''-'' # t"
proof -
  define R where "R = Cats [Repeat 2 (Class is_digit), Lit CHR ''-'', Repeat 2 (Class is_digit),
    Opt (Cats [Lit CHR ''T'', Repeat 2 (Class is_digit), Lit CHR '':'',
               Repeat 2 (Class is_digit), Lit CHR '':'', Repeat 2 (Class is_digit),
               Alt (Lit CHR ''Z'')
                   (Cats [Lit CHR ''+'', Repeat 2 (Class is_digit), Lit CHR '':'',
                          Repeat 2 (Class is_digit)])])]"
  have p: "pattern DateLiteral = Cat (Repeat 4 (Class is_digit)) (Cat (Lit CHR ''-'') R)"
    by (simp add: R_def)
  from assms have "rmatch (pattern DateLiteral) x \<noteq> []"
    by (auto simp: match_def simp del: pattern.simps)
  moreover have "\<not> is_digit CHR ''-''"
    by (simp add: is_digit_def)
  ultimately show ?thesis
    unfolding p
    by (auto simp: Repeat_def Lit_def eval_nat_numeral regex_steps
        simp del: rmatch.simps(3) split: list.splits if_splits)
qed

lemma match_Date:
  assumes "date_text d" "literal_stop s"
  shows "match (pattern DateLiteral) (d @ s) = Some d"
proof -
  have neg: "\<not> is_digit CHR ''-''" "\<not> is_digit CHR ''.''" "\<not> is_digit CHR ''T''"
    by (simp_all add: is_digit_def)
  from assms(2) show ?thesis
  proof (cases rule: literal_stop_cases)
    case 1
    with assms(1) show ?thesis
      by (auto simp: date_text_def fits_Cons fits_Nil match_def Cats.simps Repeat_def Lit_def
          Opt_def eval_nat_numeral regex_steps neg simp del: rmatch.simps(3))
  next
    case (2 s')
    with assms(1) show ?thesis
      by (auto simp: date_text_def fits_Cons fits_Nil match_def Cats.simps Repeat_def Lit_def
          Opt_def eval_nat_numeral regex_steps neg simp del: rmatch.simps(3))
  qed
qed

lemma digit_term_char: "is_digit c \<Longrightarrow> term_char c"
  by (auto simp: term_char_def dest: digit_facts)

lemma date_text_split:
  assumes "date_text d"
  obtains w t where "d = w @ t" "list_all term_char w" "w \<noteq> []" "t = [] \<or> hd t = CHR '':''"
    "is_digit (hd w)"
proof -
  have tc: "term_char CHR ''-''" "term_char CHR ''T''"
    by (simp_all add: term_char_def is_space_def)
  from assms consider "fits ''9999-99-99'' d" | "fits ''9999-99-99T99:99:99Z'' d"
    | "fits ''9999-99-99T99:99:99+99:99'' d"
    by (auto simp: date_text_def)
  then show thesis
  proof cases
    case 1
    then have "d = d @ []" "list_all term_char d" "d \<noteq> []" "is_digit (hd d)"
      by (auto simp: fits_Cons fits_Nil tc digit_term_char)
    then show ?thesis
      using that by blast
  next
    case 2
    then have "d = take 13 d @ drop 13 d" "list_all term_char (take 13 d)" "take 13 d \<noteq> []"
      "hd (drop 13 d) = CHR '':''" "is_digit (hd (take 13 d))"
      by (auto simp: fits_Cons fits_Nil tc digit_term_char eval_nat_numeral)
    then show ?thesis
      using that by blast
  next
    case 3
    then have "d = take 13 d @ drop 13 d" "list_all term_char (take 13 d)" "take 13 d \<noteq> []"
      "hd (drop 13 d) = CHR '':''" "is_digit (hd (take 13 d))"
      by (auto simp: fits_Cons fits_Nil tc digit_term_char eval_nat_numeral)
    then show ?thesis
      using that by blast
  qed
qed

lemma dropWhile_digits:
  assumes "list_all is_digit ds" "s = [] \<or> \<not> is_digit (hd s)"
  shows "dropWhile is_digit (ds @ s) = s"
  using assms by (cases s) (auto simp: dropWhile_append list_all_iff)

text \<open>
  The lexer reads the text of a literal, in front of the end of the input or of the
  range separator, as one token of the literal's type.
\<close>

lemma first_match_number:
  assumes ds: "list_all is_digit ds" "ds \<noteq> []"
    and n: "n = ds \<or> (\<exists>es. list_all is_digit es \<and> es \<noteq> [] \<and> n = ds @ ''.'' @ es)"
    and s: "literal_stop s"
  shows "first_match tokens (n @ s) = Some (NumberLiteral, n)"
proof -
  from ds obtain c cs where c: "ds = c # cs" "is_digit c"
    by (cases ds) auto
  from n obtain t where t: "n @ s = ds @ t" "t = [] \<or> hd t = CHR ''.''"
    using s by (auto elim: literal_stop_cases)
  then have nd: "t = [] \<or> \<not> is_digit (hd t)"
    by (auto simp: is_digit_def)
  have date: "match (pattern DateLiteral) (n @ s) = None"
  proof (cases "match (pattern DateLiteral) (n @ s)")
    case (Some img)
    from date_starts [OF Some] dropWhile_digits [OF ds(1) nd] t show ?thesis
      by auto
  qed simp
  have number: "match (pattern NumberLiteral) (n @ s) = Some n"
    using n match_Number_integer [OF ds s] match_Number_decimal [OF ds _ _ s] by auto
  have "term_stop t"
    using t(2) by (auto simp: term_stop_def)
  from match_Term_stop [OF digits_term_chars [OF ds(1)] ds(2) this]
  have "match (pattern Term) (n @ s) = Some ds"
    by (simp add: t(1))
  moreover have "length ds \<le> length n"
    using n by auto
  ultimately have "first_match [NumberLiteral, QuotedTerm, Term] (n @ s) = Some (NumberLiteral, n)"
    using number by (intro first_match_alt) simp_all
  with date have "first_match [DateLiteral, NumberLiteral, QuotedTerm, Term] (n @ s) =
      Some (NumberLiteral, n)"
    by (simp only: first_match_skip)
  moreover have "n @ s = c # cs @ t"
    by (simp add: t(1) c(1))
  ultimately show ?thesis
    using first_match_digit [OF c(2), of "cs @ t"] by simp
qed

lemma first_match_date:
  assumes "date_text d" "literal_stop s"
  shows "first_match tokens (d @ s) = Some (DateLiteral, d)"
proof -
  from assms(1) obtain w t where w: "d = w @ t" "list_all term_char w" "w \<noteq> []"
    "t = [] \<or> hd t = CHR '':''" "is_digit (hd w)"
    by (rule date_text_split)
  have "term_stop (t @ s)"
    using w(4) literal_stop_term_stop [OF assms(2)] by (cases t) (auto simp: term_stop_def)
  from match_Term_stop [OF w(2,3) this] have "match (pattern Term) (d @ s) = Some w"
    by (simp add: w(1))
  moreover have "length w \<le> length d"
    by (simp add: w(1))
  ultimately have "first_match [DateLiteral, NumberLiteral, QuotedTerm, Term] (d @ s) =
      Some (DateLiteral, d)"
    using match_Date [OF assms] by (intro first_match_alt) simp_all
  moreover from w obtain c cs where "d @ s = c # cs" "is_digit c"
    by (cases w) auto
  ultimately show ?thesis
    using first_match_digit [of c cs] by simp
qed

lemma tokenize_literal:
  assumes "literal_ok l" "literal_stop s"
  shows "tokenize (text_of l @ s) = \<lparr>tokenType = token_of l, image' = text_of l\<rparr> # tokenize s"
proof -
  have "first_match tokens (text_of l @ s) = Some (token_of l, text_of l)"
  proof (cases l)
    case (IntegerLit z k)
    then show ?thesis
      using first_match_number [OF digits_numeral_text numeral_text_nonempty _ assms(2),
          of "numeral_text z k" z k]
      by simp
  next
    case (DecimalLit z k y j)
    then show ?thesis
      using first_match_number [OF digits_numeral_text numeral_text_nonempty _ assms(2),
          of "numeral_text z k @ ''.'' @ numeral_text y j" z k]
        digits_numeral_text [of y j] numeral_text_nonempty [of y j]
      by auto
  next
    case (DateLit d)
    with assms show ?thesis
      using first_match_date by simp
  qed
  moreover have "\<not> skipped (token_of l)"
    by (cases l) simp_all
  ultimately show ?thesis
    by (rule tokenize_cons)
qed

subsection \<open>Field names and operators\<close>

lemma dropWhile_twice:
  assumes "list_all Q cs" "\<not> Q x" "\<And>c. P c \<Longrightarrow> Q c"
  shows "dropWhile Q (dropWhile P (cs @ x # s)) = x # s"
proof -
  have "dropWhile Q (dropWhile P xs) = dropWhile Q xs" for xs
    by (induction xs) (auto dest: assms(3))
  moreover have "dropWhile Q (cs @ x # s) = x # s"
    using assms(1,2) by (simp add: dropWhile_append3 list_all_iff)
  ultimately show ?thesis
    by simp
qed

lemma match_ID:
  assumes "is_id_start c" "list_all is_id_char cs"
  shows "match (pattern ID) ((c # cs) @ CHR '':'' # s) = Some (c # cs)"
proof -
  let ?x = "cs @ CHR '':'' # s"
  obtain r1 where r1: "rmatch (Kleene (Class is_id_start)) ?x = dropWhile is_id_start ?x # r1"
    using rmatch_Kleene_Class by blast
  obtain r2 where r2: "rmatch (Kleene (Class is_id_char)) (dropWhile is_id_start ?x) =
      dropWhile is_id_char (dropWhile is_id_start ?x) # r2"
    using rmatch_Kleene_Class by blast
  have "\<not> is_id_char CHR '':''"
    by (simp add: is_id_char_def is_id_start_def is_digit_def)
  moreover have "is_id_start c \<Longrightarrow> is_id_char c" for c
    by (simp add: is_id_char_def)
  ultimately have "dropWhile is_id_char (dropWhile is_id_start ?x) = CHR '':'' # s"
    by (rule dropWhile_twice [OF assms(2)])
  with r1 r2 assms(1) have "\<exists>rest. rmatch (pattern ID) ((c # cs) @ CHR '':'' # s) =
      (CHR '':'' # s) # rest"
    by (simp add: Rep1_def)
  then obtain rest where "rmatch (pattern ID) ((c # cs) @ CHR '':'' # s) = (CHR '':'' # s) # rest"
    by blast
  then show ?thesis
    unfolding match_def by (simp only: list.case take_all_but)
qed

lemma match_Not_field_name:
  assumes "field_name f"
  shows "match (pattern Not') (f @ CHR '':'' # s) = None"
proof (cases "match (pattern Not') (f @ CHR '':'' # s)")
  case (Some img)
  then obtain y where "f @ CHR '':'' # s = CHR ''N'' # CHR ''O'' # CHR ''T'' # y"
    by (auto simp: match_def Str_def Lit_def split: list.splits if_splits)
  moreover have "\<not> is_id_char CHR '':''"
    by (simp add: is_id_char_def is_id_start_def is_digit_def)
  ultimately have "take 3 f = ''NOT''"
    using assms
    by (cases f; cases "tl f"; cases "tl (tl f)") (auto simp: field_name_def)
  with assms show ?thesis
    by (simp add: field_name_def)
qed simp

lemma tokenize_field_name:
  assumes "field_name f"
  shows "tokenize (f @ CHR '':'' # s) = \<lparr>tokenType = ID, image' = f\<rparr> # tokenize (CHR '':'' # s)"
proof -
  from assms obtain c cs where f: "f = c # cs" and c: "is_id_start c" "is_id_char c"
    and cs: "list_all is_id_char cs"
    by (cases f) (auto simp: field_name_def)
  let ?x = "f @ CHR '':'' # s"
  have sp: "match (pattern SP) ?x = None"
    using id_char_facts(1) [OF c(2)] by (simp add: f match_def Rep1_def)
  have mi: "match (pattern Minus) ?x = None"
    using id_char_facts(6) [OF c(2)] by (simp add: f match_def Lit_def)
  have id: "match (pattern ID) ?x = Some f"
    unfolding f by (rule match_ID [OF c(1) cs])
  have "list_all term_char f"
    using assms by (auto simp: field_name_def list_all_iff term_char_def dest: id_char_facts)
  moreover have "f \<noteq> []"
    by (simp add: f)
  moreover have "term_stop (CHR '':'' # s)"
    by (simp add: term_stop_def)
  ultimately have "match (pattern Term) ?x = Some f"
    by (rule match_Term_stop)
  from first_match_alt [OF id _ this] have "first_match [ID, GTE, GT, LTE, LT, EQ, DoubleDot,
      Star, DateLiteral, NumberLiteral, QuotedTerm, Term] ?x = Some (ID, f)"
    by simp
  then have "first_match tokens ?x = Some (ID, f)"
    unfolding tokens_def
    by (simp only: first_match_skip [OF sp] first_match_skip [OF mi]
        first_match_skip [OF match_Not_field_name [OF assms]])
  then show ?thesis
    by (rule tokenize_cons) simp
qed

lemma tokenize_GTE:
  "tokenize ('':>='' @ x) = \<lparr>tokenType = GTE, image' = '':>=''\<rparr> # tokenize x"
proof -
  have "first_match tokens ('':>='' @ x) = Some (GTE, '':>='')"
    by (simp add: tokens_def match_def Rep1_def Str_def Lit_def is_space_def is_id_start_def)
  then show ?thesis
    by (rule tokenize_cons) simp
qed

lemma tokenize_LTE:
  "tokenize ('':<='' @ x) = \<lparr>tokenType = LTE, image' = '':<=''\<rparr> # tokenize x"
proof -
  have "first_match tokens ('':<='' @ x) = Some (LTE, '':<='')"
    by (simp add: tokens_def match_def Rep1_def Str_def Lit_def is_space_def is_id_start_def)
  then show ?thesis
    by (rule tokenize_cons) simp
qed

lemma tokenize_GT:
  assumes "c \<noteq> CHR ''=''"
  shows "tokenize ('':>'' @ c # cs) = \<lparr>tokenType = GT, image' = '':>''\<rparr> # tokenize (c # cs)"
proof -
  have "first_match tokens ('':>'' @ c # cs) = Some (GT, '':>'')"
    using assms
    by (simp add: tokens_def match_def Rep1_def Str_def Lit_def is_space_def is_id_start_def)
  then show ?thesis
    by (rule tokenize_cons) simp
qed

lemma tokenize_LT:
  assumes "c \<noteq> CHR ''=''"
  shows "tokenize ('':<'' @ c # cs) = \<lparr>tokenType = LT, image' = '':<''\<rparr> # tokenize (c # cs)"
proof -
  have "first_match tokens ('':<'' @ c # cs) = Some (LT, '':<'')"
    using assms
    by (simp add: tokens_def match_def Rep1_def Str_def Lit_def is_space_def is_id_start_def)
  then show ?thesis
    by (rule tokenize_cons) simp
qed

lemma tokenize_EQ:
  assumes "c \<noteq> CHR ''>''" "c \<noteq> CHR ''<''"
  shows "tokenize ('':'' @ c # cs) = \<lparr>tokenType = EQ, image' = '':''\<rparr> # tokenize (c # cs)"
proof -
  have "first_match tokens ('':'' @ c # cs) = Some (EQ, '':'')"
    using assms
    by (simp add: tokens_def match_def Rep1_def Str_def Lit_def is_space_def is_id_start_def)
  then show ?thesis
    by (rule tokenize_cons) simp
qed

lemma tokenize_DoubleDot:
  "tokenize (''..'' @ x) = \<lparr>tokenType = DoubleDot, image' = ''..''\<rparr> # tokenize x"
proof -
  have "first_match tokens (''..'' @ x) = Some (DoubleDot, ''..'')"
    by (simp add: tokens_def match_def Rep1_def Str_def Lit_def is_space_def is_id_start_def)
  then show ?thesis
    by (rule tokenize_cons) simp
qed

lemma tokenize_Star:
  "tokenize (''*'' @ x) = \<lparr>tokenType = Star, image' = ''*''\<rparr> # tokenize x"
proof -
  have "first_match tokens (''*'' @ x) = Some (Star, ''*'')"
    by (simp add: tokens_def match_def Rep1_def Str_def Lit_def is_space_def is_id_start_def)
  then show ?thesis
    by (rule tokenize_cons) simp
qed

subsection \<open>The value of a number text\<close>

lemma underflow_of_nat: "underflow (of_nat k) = of_nat k"
proof (cases k)
  case 0
  then show ?thesis
    by (simp add: underflow_0)
next
  case (Suc n)
  have "(1::rat) / 1024 \<le> 1"
    by simp
  also have "(1::rat) \<le> of_nat k"
    by (simp add: Suc)
  finally show ?thesis
    by (rule underflow_id)
qed

lemma Number_integer:
  assumes "list_all is_digit ds"
  shows "Number ds = JNumber (of_nat (digits_value ds))"
proof -
  from assms have ip: "takeWhile is_digit ds = ds"
    by (simp add: list_all_iff)
  have "digits_value [] = 0"
    by (simp add: digits_value_def)
  then show ?thesis
    unfolding Number_def Let_def ip by (simp add: underflow_of_nat)
qed

lemma Number_decimal:
  assumes "list_all is_digit ds"
  shows "Number (ds @ ''.'' @ es) =
    JNumber (underflow (of_nat (digits_value ds) + of_nat (digits_value es) / 10 ^ length es))"
proof -
  from assms have "takeWhile is_digit (ds @ CHR ''.'' # es) = ds"
    by (simp add: list_all_iff takeWhile_append2 is_digit_def)
  then show ?thesis
    by (simp add: Number_def)
qed

lemma Number_text_of:
  "Number (text_of (IntegerLit z k)) = value_of (IntegerLit z k)"
  "Number (text_of (DecimalLit z k y j)) = value_of (DecimalLit z k y j)"
  using Number_integer [OF digits_numeral_text, of z k]
    Number_decimal [OF digits_numeral_text, of z k "numeral_text y j"]
  by (simp_all add: digits_value_numeral_text)

lemma literal_starts:
  assumes "literal_ok a"
  obtains c cs where "text_of a = c # cs" "is_digit c"
proof (cases a)
  case (IntegerLit z k)
  with digits_numeral_text [of z k] numeral_text_nonempty [of z k] that show ?thesis
    by (cases "numeral_text z k") auto
next
  case (DecimalLit z k y j)
  with digits_numeral_text [of z k] numeral_text_nonempty [of z k] that show ?thesis
    by (cases "numeral_text z k") auto
next
  case (DateLit d)
  with assms that show ?thesis
    by (auto simp: date_text_def fits_Cons)
qed

subsection \<open>The tokens of the inputs\<close>

definition literal_token :: "literal \<Rightarrow> token" where
  "literal_token a = \<lparr>tokenType = token_of a, image' = text_of a\<rparr>"

lemma tokenize_literal_end:
  assumes "literal_ok a"
  shows "tokenize (text_of a) = [literal_token a]"
  using tokenize_literal [OF assms, of "[]"]
  by (simp add: literal_stop_def tokenize_Nil literal_token_def)

lemma tokenize_literal_DoubleDot:
  assumes "literal_ok a"
  shows "tokenize (text_of a @ ''..'' @ x) =
    literal_token a # \<lparr>tokenType = DoubleDot, image' = ''..''\<rparr> # tokenize x"
  using tokenize_literal [OF assms, of "''..'' @ x"] tokenize_DoubleDot [of x]
  by (simp add: literal_stop_def literal_token_def)

lemma tokenize_field:
  assumes "field_name f" "literal_ok a"
  shows "tokenize (f @ '':'' @ text_of a @ x) =
    \<lparr>tokenType = ID, image' = f\<rparr> # \<lparr>tokenType = EQ, image' = '':''\<rparr>
      # tokenize (text_of a @ x)"
proof -
  from assms(2) obtain c cs where a: "text_of a = c # cs" "is_digit c"
    by (rule literal_starts)
  from a(2) have "c \<noteq> CHR ''>''" "c \<noteq> CHR ''<''"
    by (auto simp: is_digit_def)
  from tokenize_EQ [OF this, of "cs @ x"] tokenize_field_name [OF assms(1), of "text_of a @ x"]
  show ?thesis
    by (simp add: a(1))
qed

lemma tokenize_field_Star:
  assumes "field_name f"
  shows "tokenize (f @ '':*'' @ x) =
    \<lparr>tokenType = ID, image' = f\<rparr> # \<lparr>tokenType = EQ, image' = '':''\<rparr>
      # \<lparr>tokenType = Star, image' = ''*''\<rparr> # tokenize x"
  using tokenize_EQ [of "CHR ''*''" x] tokenize_field_name [OF assms, of "''*'' @ x"]
    tokenize_Star [of x]
  by simp

lemma tokenize_compare:
  assumes "field_name f" "literal_ok a"
  shows "tokenize (f @ '':>'' @ text_of a) =
      [\<lparr>tokenType = ID, image' = f\<rparr>, \<lparr>tokenType = GT, image' = '':>''\<rparr>, literal_token a]"
    and "tokenize (f @ '':>='' @ text_of a) =
      [\<lparr>tokenType = ID, image' = f\<rparr>, \<lparr>tokenType = GTE, image' = '':>=''\<rparr>, literal_token a]"
    and "tokenize (f @ '':<'' @ text_of a) =
      [\<lparr>tokenType = ID, image' = f\<rparr>, \<lparr>tokenType = LT, image' = '':<''\<rparr>, literal_token a]"
    and "tokenize (f @ '':<='' @ text_of a) =
      [\<lparr>tokenType = ID, image' = f\<rparr>, \<lparr>tokenType = LTE, image' = '':<=''\<rparr>, literal_token a]"
proof -
  from assms(2) obtain c cs where a: "text_of a = c # cs" "is_digit c"
    by (rule literal_starts)
  from a(2) have c: "c \<noteq> CHR ''=''"
    by (auto simp: is_digit_def)
  note lit = tokenize_literal_end [OF assms(2)]
  show "tokenize (f @ '':>'' @ text_of a) =
      [\<lparr>tokenType = ID, image' = f\<rparr>, \<lparr>tokenType = GT, image' = '':>''\<rparr>, literal_token a]"
    using tokenize_field_name [OF assms(1), of "''>'' @ text_of a"] tokenize_GT [OF c, of cs] lit
    by (simp add: a(1))
  show "tokenize (f @ '':<'' @ text_of a) =
      [\<lparr>tokenType = ID, image' = f\<rparr>, \<lparr>tokenType = LT, image' = '':<''\<rparr>, literal_token a]"
    using tokenize_field_name [OF assms(1), of "''<'' @ text_of a"] tokenize_LT [OF c, of cs] lit
    by (simp add: a(1))
  show "tokenize (f @ '':>='' @ text_of a) =
      [\<lparr>tokenType = ID, image' = f\<rparr>, \<lparr>tokenType = GTE, image' = '':>=''\<rparr>, literal_token a]"
    using tokenize_field_name [OF assms(1), of "''>='' @ text_of a"]
      tokenize_GTE [of "text_of a"] lit
    by simp
  show "tokenize (f @ '':<='' @ text_of a) =
      [\<lparr>tokenType = ID, image' = f\<rparr>, \<lparr>tokenType = LTE, image' = '':<=''\<rparr>, literal_token a]"
    using tokenize_field_name [OF assms(1), of "''<='' @ text_of a"]
      tokenize_LTE [of "text_of a"] lit
    by simp
qed

subsection \<open>From the tokens to the clause\<close>

lemma Number_numeral_text:
  "Number (numeral_text z k) = JNumber (of_nat k)"
  "Number (numeral_text z k @ CHR ''.'' # numeral_text y j) =
     JNumber (underflow (of_nat k + of_nat j / 10 ^ length (numeral_text y j)))"
  using Number_text_of(1) [of z k] Number_text_of(2) [of z k y j] by simp_all

lemma parse_term_literal:
  assumes "tokenize x = [literal_token a]"
  shows "parse x =
    Inr [Some \<lparr>type = FilterType.Term, kind = ''Term'', field = None,
               value' = Some (JString (text_of a)), from' = None, to = None, exclude = None\<rparr>]"
  by (cases a) (simp_all add: parse_def assms parser_eval literal_token_def)

lemma parse_field_literal:
  assumes "tokenize x =
    [\<lparr>tokenType = ID, image' = f\<rparr>, \<lparr>tokenType = EQ, image' = '':''\<rparr>, literal_token a]"
  shows "parse x =
    Inr [Some \<lparr>type = FilterType.Field, kind = ''Field'', field = Some (JString f),
               value' = Some (JString (text_of a)), from' = None, to = None, exclude = None\<rparr>]"
  by (cases a) (simp_all add: parse_def assms parser_eval literal_token_def)

lemma parse_compare_literal:
  assumes "tokenize x = [\<lparr>tokenType = ID, image' = f\<rparr>, \<lparr>tokenType = op, image' = img\<rparr>,
      literal_token a]"
    and "(op, ty, k) \<in> {(GT, FilterType.GT, ''GT''), (GTE, FilterType.GTE, ''GTE''),
      (LT, FilterType.LT, ''LT''), (LTE, FilterType.LTE, ''LTE'')}"
  shows "parse x =
    Inr [Some \<lparr>type = ty, kind = k, field = Some (JString f),
               value' = Some (value_of a), from' = None, to = None, exclude = None\<rparr>]"
  using assms(2)
  by (cases a)
    (auto simp: parse_def assms(1) parser_eval literal_token_def Number_numeral_text new_Date_def)

lemma parse_range_literals:
  assumes "tokenize x =
    [\<lparr>tokenType = ID, image' = f\<rparr>, \<lparr>tokenType = EQ, image' = '':''\<rparr>, literal_token a,
     \<lparr>tokenType = DoubleDot, image' = ''..''\<rparr>, literal_token b]"
  shows "parse x =
    Inr [Some (if \<not> truthy (value_of a) then
                 \<lparr>type = FilterType.LTE, kind = ''LTE'', field = Some (JString f),
                  value' = Some (value_of b), from' = None, to = None, exclude = None\<rparr>
               else if \<not> truthy (value_of b) then
                 \<lparr>type = FilterType.GTE, kind = ''GTE'', field = Some (JString f),
                  value' = Some (value_of a), from' = None, to = None, exclude = None\<rparr>
               else
                 \<lparr>type = FilterType.Range, kind = ''Range'', field = Some (JString f),
                  value' = None, from' = Some (value_of a), to = Some (value_of b),
                  exclude = None\<rparr>)]"
  by (cases a; cases b)
    (simp_all add: parse_def assms parser_eval literal_token_def Number_numeral_text new_Date_def)

lemma parse_range_left_literal:
  assumes "tokenize x =
    [\<lparr>tokenType = ID, image' = f\<rparr>, \<lparr>tokenType = EQ, image' = '':''\<rparr>, literal_token a,
     \<lparr>tokenType = DoubleDot, image' = ''..''\<rparr>, \<lparr>tokenType = Star, image' = ''*''\<rparr>]"
  shows "parse x =
    Inr [Some (if \<not> truthy (value_of a) then
                 \<lparr>type = FilterType.LTE, kind = ''LTE'', field = Some (JString f),
                  value' = Some Undefined, from' = None, to = None, exclude = None\<rparr>
               else
                 \<lparr>type = FilterType.GTE, kind = ''GTE'', field = Some (JString f),
                  value' = Some (value_of a), from' = None, to = None, exclude = None\<rparr>)]"
  by (cases a)
    (simp_all add: parse_def assms parser_eval literal_token_def Number_numeral_text new_Date_def)

lemma parse_range_right_literal:
  assumes "tokenize x =
    [\<lparr>tokenType = ID, image' = f\<rparr>, \<lparr>tokenType = EQ, image' = '':''\<rparr>,
     \<lparr>tokenType = Star, image' = ''*''\<rparr>, \<lparr>tokenType = DoubleDot, image' = ''..''\<rparr>,
     literal_token b]"
  shows "parse x =
    Inr [Some \<lparr>type = FilterType.LTE, kind = ''LTE'', field = Some (JString f),
               value' = Some (value_of b), from' = None, to = None, exclude = None\<rparr>]"
  by (cases b)
    (simp_all add: parse_def assms parser_eval literal_token_def Number_numeral_text new_Date_def)

text \<open>The numerals of the examples.\<close>

lemma dec_eval:
  "dec 0 = ''0''"
  "dec (Suc 0) = ''1''"
  "dec (numeral n) =
     (if (numeral n :: nat) < 10 then [digit_char (numeral n)]
      else dec (numeral n div 10) @ [digit_char (numeral n mod 10)])"
  by (subst dec.simps, simp add: digit_char_def)+

text \<open>
  Claim C6. Number and date literals are typed only in comparable position. Let \<open>a\<close> and
  \<open>b\<close> be literals: integers or decimals, with any leading zeros, or dates of one of the
  three shapes; and let \<open>f\<close> be a field name. As a bare term, and as the term of a field
  statement \<^verbatim>\<open>f:a\<close>, the literal resolves to its source text, a string. After each of
  the comparison operators \<^verbatim>\<open>:>\<close>, \<^verbatim>\<open>:>=\<close>, \<^verbatim>\<open>:<\<close>, \<^verbatim>\<open>:<=\<close> and as a bound of
  the ranges \<^verbatim>\<open>f:a..b\<close>, \<^verbatim>\<open>f:a..*\<close> and \<^verbatim>\<open>f:*..b\<close> it resolves to the number or
  the date it denotes; which clause a range gives depends on the truthiness of the bounds,
  as \<^verbatim>\<open>fieldStatement\<close> tests it. So \<^verbatim>\<open>parse("123")\<close> is a \<open>Term\<close> with the string
  \<^verbatim>\<open>"123"\<close>, and \<^verbatim>\<open>parse("x:>123")\<close> a comparison with the number 123.
\<close>

theorem C6_literal_text_versus_comparable_value:
  assumes "field_name f" and "literal_ok a" and "literal_ok b"
  shows
    "parse (text_of a) =
       Inr [Some \<lparr>type = FilterType.Term, kind = ''Term'', field = None,
                  value' = Some (JString (text_of a)), from' = None, to = None,
                  exclude = None\<rparr>]
     \<and> parse (f @ '':'' @ text_of a) =
       Inr [Some \<lparr>type = FilterType.Field, kind = ''Field'', field = Some (JString f),
                  value' = Some (JString (text_of a)), from' = None, to = None,
                  exclude = None\<rparr>]
     \<and> parse (f @ '':>'' @ text_of a) =
       Inr [Some \<lparr>type = FilterType.GT, kind = ''GT'', field = Some (JString f),
                  value' = Some (value_of a), from' = None, to = None, exclude = None\<rparr>]
     \<and> parse (f @ '':>='' @ text_of a) =
       Inr [Some \<lparr>type = FilterType.GTE, kind = ''GTE'', field = Some (JString f),
                  value' = Some (value_of a), from' = None, to = None, exclude = None\<rparr>]
     \<and> parse (f @ '':<'' @ text_of a) =
       Inr [Some \<lparr>type = FilterType.LT, kind = ''LT'', field = Some (JString f),
                  value' = Some (value_of a), from' = None, to = None, exclude = None\<rparr>]
     \<and> parse (f @ '':<='' @ text_of a) =
       Inr [Some \<lparr>type = FilterType.LTE, kind = ''LTE'', field = Some (JString f),
                  value' = Some (value_of a), from' = None, to = None, exclude = None\<rparr>]
     \<and> parse (f @ '':'' @ text_of a @ ''..'' @ text_of b) =
       Inr [Some (if \<not> truthy (value_of a) then
                    \<lparr>type = FilterType.LTE, kind = ''LTE'', field = Some (JString f),
                     value' = Some (value_of b), from' = None, to = None, exclude = None\<rparr>
                  else if \<not> truthy (value_of b) then
                    \<lparr>type = FilterType.GTE, kind = ''GTE'', field = Some (JString f),
                     value' = Some (value_of a), from' = None, to = None, exclude = None\<rparr>
                  else
                    \<lparr>type = FilterType.Range, kind = ''Range'', field = Some (JString f),
                     value' = None, from' = Some (value_of a), to = Some (value_of b),
                     exclude = None\<rparr>)]
     \<and> parse (f @ '':'' @ text_of a @ ''..*'') =
       Inr [Some (if \<not> truthy (value_of a) then
                    \<lparr>type = FilterType.LTE, kind = ''LTE'', field = Some (JString f),
                     value' = Some Undefined, from' = None, to = None, exclude = None\<rparr>
                  else
                    \<lparr>type = FilterType.GTE, kind = ''GTE'', field = Some (JString f),
                     value' = Some (value_of a), from' = None, to = None, exclude = None\<rparr>)]
     \<and> parse (f @ '':*..'' @ text_of b) =
       Inr [Some \<lparr>type = FilterType.LTE, kind = ''LTE'', field = Some (JString f),
                  value' = Some (value_of b), from' = None, to = None, exclude = None\<rparr>]"
proof -
  note a = tokenize_literal_end [OF assms(2)]
  note b = tokenize_literal_end [OF assms(3)]
  note cmp = tokenize_compare [OF assms(1,2)]
  have t2: "tokenize (f @ '':'' @ text_of a) =
      [\<lparr>tokenType = ID, image' = f\<rparr>, \<lparr>tokenType = EQ, image' = '':''\<rparr>, literal_token a]"
    using tokenize_field [OF assms(1,2), of "[]"] a by simp
  have t7: "tokenize (f @ '':'' @ text_of a @ ''..'' @ text_of b) =
      [\<lparr>tokenType = ID, image' = f\<rparr>, \<lparr>tokenType = EQ, image' = '':''\<rparr>, literal_token a,
       \<lparr>tokenType = DoubleDot, image' = ''..''\<rparr>, literal_token b]"
    using tokenize_field [OF assms(1,2), of "''..'' @ text_of b"]
      tokenize_literal_DoubleDot [OF assms(2), of "text_of b"] b
    by simp
  have t8: "tokenize (f @ '':'' @ text_of a @ ''..*'') =
      [\<lparr>tokenType = ID, image' = f\<rparr>, \<lparr>tokenType = EQ, image' = '':''\<rparr>, literal_token a,
       \<lparr>tokenType = DoubleDot, image' = ''..''\<rparr>, \<lparr>tokenType = Star, image' = ''*''\<rparr>]"
    using tokenize_field [OF assms(1,2), of "''..*''"]
      tokenize_literal_DoubleDot [OF assms(2), of "''*''"] tokenize_Star [of "[]"]
    by (simp add: tokenize_Nil)
  have t9: "tokenize (f @ '':*..'' @ text_of b) =
      [\<lparr>tokenType = ID, image' = f\<rparr>, \<lparr>tokenType = EQ, image' = '':''\<rparr>,
       \<lparr>tokenType = Star, image' = ''*''\<rparr>, \<lparr>tokenType = DoubleDot, image' = ''..''\<rparr>,
       literal_token b]"
    using tokenize_field_Star [OF assms(1), of "''..'' @ text_of b"]
      tokenize_DoubleDot [of "text_of b"] b
    by simp
  show ?thesis
    by (intro conjI parse_term_literal [OF a] parse_field_literal [OF t2]
        parse_compare_literal [OF cmp(1)] parse_compare_literal [OF cmp(2)]
        parse_compare_literal [OF cmp(3)] parse_compare_literal [OF cmp(4)]
        parse_range_literals [OF t7] parse_range_left_literal [OF t8]
        parse_range_right_literal [OF t9]) simp_all
qed

theorem C6_literal_text_versus_comparable_value_witness:
  "parse ''123'' =
     Inr [Some \<lparr>type = FilterType.Term, kind = ''Term'', field = None,
                value' = Some (JString ''123''), from' = None, to = None, exclude = None\<rparr>]
   \<and> parse ''x:123'' =
     Inr [Some \<lparr>type = FilterType.Field, kind = ''Field'', field = Some (JString ''x''),
                value' = Some (JString ''123''), from' = None, to = None, exclude = None\<rparr>]
   \<and> parse ''x:>123'' =
     Inr [Some \<lparr>type = FilterType.GT, kind = ''GT'', field = Some (JString ''x''),
                value' = Some (JNumber 123), from' = None, to = None, exclude = None\<rparr>]
   \<and> parse ''x:123..2020-01-01'' =
     Inr [Some \<lparr>type = FilterType.Range, kind = ''Range'', field = Some (JString ''x''),
                value' = None, from' = Some (JNumber 123), to = Some (JDate ''2020-01-01''),
                exclude = None\<rparr>]
   \<and> parse ''x:*..2020-01-01'' =
     Inr [Some \<lparr>type = FilterType.LTE, kind = ''LTE'', field = Some (JString ''x''),
                value' = Some (JDate ''2020-01-01''), from' = None, to = None,
                exclude = None\<rparr>]
   \<and> parse ''01.50'' =
     Inr [Some \<lparr>type = FilterType.Term, kind = ''Term'', field = None,
                value' = Some (JString ''01.50''), from' = None, to = None, exclude = None\<rparr>]
   \<and> parse ''size:<=01.50'' =
     Inr [Some \<lparr>type = FilterType.LTE, kind = ''LTE'', field = Some (JString ''size''),
                value' = Some (JNumber (3 / 2)), from' = None, to = None, exclude = None\<rparr>]
   \<and> parse ''size:01.50..*'' =
     Inr [Some \<lparr>type = FilterType.GTE, kind = ''GTE'', field = Some (JString ''size''),
                value' = Some (JNumber (3 / 2)), from' = None, to = None, exclude = None\<rparr>]"
  using C6_literal_text_versus_comparable_value
      [of "''x''" "IntegerLit 0 123" "DateLit ''2020-01-01''"]
    C6_literal_text_versus_comparable_value
      [of "''size''" "DecimalLit 1 1 0 50" "DateLit ''2020-01-01T10:00:00+08:00''"]
  by (simp add: field_name_def is_id_start_def is_id_char_def date_text_def is_digit_def
      numeral_text_def dec_eval digit_char_def underflow_id)

end
